theory Spec2Isabelle
  imports Complex_Main
begin

section \<open>DDPG: replay buffer, update step and training loop\<close>

text \<open>
  A shallow embedding of \<^verbatim>\<open>spinup/algos/pytorch/ddpg/ddpg.py\<close>. Floating-point
  numbers are modelled as reals, Python exceptions raised by the code itself as
  values of \<open>error\<close>, and mutation as explicit state passing.
\<close>

subsection \<open>Errors\<close>

datatype error = IndexError | ZeroDivisionError | ValueError | FileNotFoundError

definition ebind :: "error + 'a \<Rightarrow> ('a \<Rightarrow> error + 'b) \<Rightarrow> error + 'b" where
  "ebind m f = (case m of Inl e \<Rightarrow> Inl e | Inr x \<Rightarrow> f x)"

subsection \<open>ReplayBuffer\<close>

text \<open>
  The five numpy arrays are lists of rows; \<open>ptr\<close>, \<open>size\<close> and \<open>max_size\<close> are the
  three counters of the class (\<open>size\<close> is written \<open>size'\<close>).
  \<^verbatim>\<open>np.zeros(core.combined_shape(size, obs_dim))\<close> is \<open>size\<close> rows of \<open>obs_dim\<close> zeros.
\<close>

record ReplayBuffer =
  obs_buf :: "real list list"
  obs2_buf :: "real list list"
  act_buf :: "real list list"
  rew_buf :: "real list"
  done_buf :: "real list"
  ptr :: nat
  size' :: nat
  max_size :: nat

definition ReplayBuffer_init :: "nat \<Rightarrow> nat \<Rightarrow> nat \<Rightarrow> ReplayBuffer" where
  "ReplayBuffer_init obs_dim act_dim sz =
     \<lparr>obs_buf = replicate sz (replicate obs_dim 0),
      obs2_buf = replicate sz (replicate obs_dim 0),
      act_buf = replicate sz (replicate act_dim 0),
      rew_buf = replicate sz 0,
      done_buf = replicate sz 0,
      ptr = 0, size' = 0, max_size = sz\<rparr>"

text \<open>\<^verbatim>\<open>buf[i] = v\<close> on a numpy array: IndexError when \<open>i\<close> is past the end.\<close>

definition setitem :: "'a list \<Rightarrow> nat \<Rightarrow> 'a \<Rightarrow> error + 'a list" where
  "setitem buf i v = (if i < length buf then Inr (buf[i := v]) else Inl IndexError)"

text \<open>
  \<open>store\<close>, lines 26-33: five writes at \<open>ptr\<close>, then the cursor and the size.
  The \<open>done\<close> flag is a boolean stored in a float array, so it is stored as 0 or 1.
\<close>

definition store ::
  "ReplayBuffer \<Rightarrow> real list \<Rightarrow> real list \<Rightarrow> real \<Rightarrow> real list \<Rightarrow> bool \<Rightarrow> error + ReplayBuffer" where
  "store b obs act rew next_obs done =
     ebind (setitem (obs_buf b) (ptr b) obs) (\<lambda>ob.
     ebind (setitem (obs2_buf b) (ptr b) next_obs) (\<lambda>ob2.
     ebind (setitem (act_buf b) (ptr b) act) (\<lambda>ab.
     ebind (setitem (rew_buf b) (ptr b) rew) (\<lambda>rb.
     ebind (setitem (done_buf b) (ptr b) (of_bool done)) (\<lambda>db.
       if max_size b = 0 then Inl ZeroDivisionError
       else Inr (b\<lparr>obs_buf := ob, obs2_buf := ob2, act_buf := ab, rew_buf := rb,
                    done_buf := db,
                    ptr := (ptr b + 1) mod max_size b,
                    size' := min (size' b + 1) (max_size b)\<rparr>))))))"

text \<open>A transition is \<open>(obs, act, rew, next_obs, done)\<close>, the argument tuple of \<open>store\<close>.\<close>

type_synonym transition = "real list \<times> real list \<times> real \<times> real list \<times> bool"

text \<open>Calling \<open>store\<close> once per transition of a list, in order.\<close>

fun store_all :: "ReplayBuffer \<Rightarrow> transition list \<Rightarrow> error + ReplayBuffer" where
  "store_all b [] = Inr b"
| "store_all b ((obs, act, rew, next_obs, done) # ts) =
     ebind (store b obs act rew next_obs done) (\<lambda>b'. store_all b' ts)"

text \<open>Row \<open>i\<close> of the buffer, read across the five arrays, and a transition as stored.\<close>

definition entry :: "ReplayBuffer \<Rightarrow> nat \<Rightarrow> real list \<times> real list \<times> real \<times> real list \<times> real" where
  "entry b i = (obs_buf b ! i, act_buf b ! i, rew_buf b ! i, obs2_buf b ! i, done_buf b ! i)"

definition entries :: "ReplayBuffer \<Rightarrow> (real list \<times> real list \<times> real \<times> real list \<times> real) list" where
  "entries b = map (entry b) [0..<max_size b]"

definition as_row :: "transition \<Rightarrow> real list \<times> real list \<times> real \<times> real list \<times> real" where
  "as_row t = (case t of (obs, act, rew, next_obs, done) \<Rightarrow> (obs, act, rew, next_obs, of_bool done))"

text \<open>The shape invariant of a buffer: all five arrays have \<open>max_size\<close> rows.\<close>

definition rb_inv :: "ReplayBuffer \<Rightarrow> bool" where
  "rb_inv b \<longleftrightarrow>
     length (obs_buf b) = max_size b \<and> length (obs2_buf b) = max_size b \<and>
     length (act_buf b) = max_size b \<and> length (rew_buf b) = max_size b \<and>
     length (done_buf b) = max_size b \<and> ptr b < max_size b \<and> size' b \<le> max_size b"

subsection \<open>sample_batch\<close>

text \<open>
  \<^verbatim>\<open>np.random.randint(low, high, size=n)\<close>: \<open>n\<close> integers of \<open>[low, high)\<close>. The
  generator's raw output \<open>raw\<close> (any naturals) is reduced into the range. A request
  for no sample returns the empty array before the range is looked at; otherwise an
  empty range raises ValueError.
\<close>

definition randint :: "(nat \<Rightarrow> nat) \<Rightarrow> int \<Rightarrow> int \<Rightarrow> nat \<Rightarrow> error + int list" where
  "randint raw low high n =
     (if n = 0 then Inr []
      else if high \<le> low then Inl ValueError
      else Inr (map (\<lambda>j. low + int (raw j) mod (high - low)) [0..<n]))"

text \<open>
  \<^verbatim>\<open>buf[idxs]\<close> with an integer array: the rows at the indices, a negative index
  counting from the end, IndexError for an index out of range.
\<close>

definition getitem :: "'a list \<Rightarrow> int list \<Rightarrow> error + 'a list" where
  "getitem buf idxs =
     (if list_all (\<lambda>i. - int (length buf) \<le> i \<and> i < int (length buf)) idxs
      then Inr (map (\<lambda>i. buf ! nat (if i < 0 then i + int (length buf) else i)) idxs)
      else Inl IndexError)"

record batch =
  batch_obs :: "real list list"
  batch_obs2 :: "real list list"
  batch_act :: "real list list"
  batch_rew :: "real list"
  batch_done :: "real list"

text \<open>\<open>sample_batch\<close>, lines 35-42. The local \<open>idxs\<close> is \<open>sample_idxs\<close>.\<close>

definition sample_idxs :: "(nat \<Rightarrow> nat) \<Rightarrow> ReplayBuffer \<Rightarrow> nat \<Rightarrow> error + int list" where
  "sample_idxs raw b batch_size = randint raw 0 (int (size' b)) batch_size"

definition sample_batch :: "(nat \<Rightarrow> nat) \<Rightarrow> ReplayBuffer \<Rightarrow> nat \<Rightarrow> error + batch" where
  "sample_batch raw b batch_size =
     ebind (sample_idxs raw b batch_size) (\<lambda>idxs.
     ebind (getitem (obs_buf b) idxs) (\<lambda>ob.
     ebind (getitem (obs2_buf b) idxs) (\<lambda>ob2.
     ebind (getitem (act_buf b) idxs) (\<lambda>a.
     ebind (getitem (rew_buf b) idxs) (\<lambda>r.
     ebind (getitem (done_buf b) idxs) (\<lambda>d.
       Inr \<lparr>batch_obs = ob, batch_obs2 = ob2, batch_act = a, batch_rew = r,
            batch_done = d\<rparr>))))))"

subsection \<open>Networks, optimizers and everything outside the file\<close>

text \<open>
  The live parameters \<open>ac\<close>, the target parameters \<open>ac_targ\<close> (one real per scalar
  parameter, in the order of \<^verbatim>\<open>parameters()\<close>) and the state of the two Adam
  optimizers.
\<close>

record nets =
  ac :: "real list"
  ac_targ :: "real list"
  pi_optimizer :: "real list"
  q_optimizer :: "real list"

text \<open>The bundle written by \<open>save_model\<close> and read back in eval mode.\<close>

record checkpoint =
  ckpt_epoch :: nat
  model_state_dict :: "real list"
  pi_optimizer_state_dict :: "real list"
  q_optimizer_state_dict :: "real list"

text \<open>
  What the file calls but does not define: the two environments, the random
  generators, the actor, the gradient steps and the logger. Each is a function on an
  opaque world \<open>'w\<close> holding their state. A random draw returns a stream, of which the
  caller takes as many values as it asked for; the actor returns its action by
  component, of which there are \<open>act_dim\<close>.
\<close>

record 'w externals =
  obs_dim :: nat
  action_high :: "real list"
  env_reset :: "'w \<Rightarrow> real list \<times> 'w"
  env_step :: "real list \<Rightarrow> 'w \<Rightarrow> (real list \<times> real \<times> bool) \<times> 'w"
  action_space_sample :: "'w \<Rightarrow> real list \<times> 'w"
  test_env_reset :: "'w \<Rightarrow> real list \<times> 'w"
  test_env_step :: "real list \<Rightarrow> 'w \<Rightarrow> (real list \<times> real \<times> bool) \<times> 'w"
  randn :: "'w \<Rightarrow> (nat \<Rightarrow> real) \<times> 'w"
  random_raw :: "'w \<Rightarrow> (nat \<Rightarrow> nat) \<times> 'w"
  init_nets :: "real list \<times> real list \<times> real list"
  ac_act :: "real list \<Rightarrow> real list \<Rightarrow> nat \<Rightarrow> real"
  q_step :: "batch \<Rightarrow> real list \<Rightarrow> real list \<Rightarrow> real list \<Rightarrow> (real list \<times> real list) \<times> real \<times> real list"
  pi_step :: "batch \<Rightarrow> real list \<Rightarrow> real list \<Rightarrow> (real list \<times> real list) \<times> real"
  logger_store :: "string \<Rightarrow> real list \<Rightarrow> 'w \<Rightarrow> 'w"
  logger_save_state :: "'w \<Rightarrow> 'w"
  logger_mean :: "string \<Rightarrow> 'w \<Rightarrow> real"
  logger_dump :: "nat \<Rightarrow> nat \<Rightarrow> 'w \<Rightarrow> 'w"
  ckpt_name :: "nat \<Rightarrow> real \<Rightarrow> string"

text \<open>The arguments of \<open>ddpg\<close> that the control flow reads.\<close>

record hyper =
  steps_per_epoch :: nat
  epochs :: nat
  replay_size :: nat
  polyak :: real
  batch_size :: nat
  start_steps :: nat
  update_after :: nat
  update_every :: nat
  act_noise :: real
  num_test_episodes :: nat
  max_ep_len :: nat
  save_freq :: nat

subsection \<open>update\<close>

text \<open>
  Lines 270-276: the loop over \<^verbatim>\<open>zip(ac.parameters(), ac_targ.parameters())\<close>,
  in place on the target parameters: \<open>mul_(polyak)\<close>, then \<open>add_((1 - polyak) * p)\<close>.
  Target parameters past the end of the zip are left as they are.
\<close>

fun polyak_avg :: "real \<Rightarrow> real list \<Rightarrow> real list \<Rightarrow> real list" where
  "polyak_avg rho (p # ps) (p_targ # p_targs) =
     (p_targ * rho + (1 - rho) * p) # polyak_avg rho ps p_targs"
| "polyak_avg rho [] p_targs = p_targs"
| "polyak_avg rho ps [] = []"

text \<open>
  \<open>update\<close>, lines 245-276: the gradient step of the critic (against the target
  networks), the gradient step of the actor on the result, the logging of the losses,
  and last the Polyak step from the parameters the two steps left.
\<close>

definition update :: "'w externals \<Rightarrow> real \<Rightarrow> batch \<Rightarrow> nets \<Rightarrow> 'w \<Rightarrow> nets \<times> 'w" where
  "update X rho data nn w =
     (let ((ac1, q_opt), loss_q, q_vals) = q_step X data (ac nn) (ac_targ nn) (q_optimizer nn);
          ((ac2, pi_opt), loss_pi) = pi_step X data ac1 (pi_optimizer nn);
          w1 = logger_store X ''loss_critic'' [loss_q] w;
          w2 = logger_store X ''loss_policy'' [loss_pi] w1;
          w3 = logger_store X ''q_vals'' q_vals w2
      in (\<lparr>ac = ac2, ac_targ = polyak_avg rho ac2 (ac_targ nn),
           pi_optimizer = pi_opt, q_optimizer = q_opt\<rparr>, w3))"

text \<open>Calling \<open>update\<close> once per batch of a list, in order.\<close>

fun update_all :: "'w externals \<Rightarrow> real \<Rightarrow> batch list \<Rightarrow> nets \<Rightarrow> 'w \<Rightarrow> nets \<times> 'w" where
  "update_all X rho [] nn w = (nn, w)"
| "update_all X rho (data # rest) nn w =
     (case update X rho data nn w of (nn', w') \<Rightarrow> update_all X rho rest nn' w')"

subsection \<open>get_action\<close>

text \<open>\<^verbatim>\<open>np.clip(a, a_min, a_max)\<close> is \<^verbatim>\<open>minimum(a_max, maximum(a, a_min))\<close>.\<close>

definition clip :: "real \<Rightarrow> real \<Rightarrow> real \<Rightarrow> real" where
  "clip x a_min a_max = min a_max (max x a_min)"

text \<open>
  Lines 173-174: \<open>act_dim\<close> is the length of the action space's \<open>high\<close> vector and
  \<open>act_limit\<close> its first component.
\<close>

definition act_limit_of :: "real list \<Rightarrow> error + real" where
  "act_limit_of high = (case high of [] \<Rightarrow> Inl IndexError | h # _ \<Rightarrow> Inr h)"

text \<open>\<open>get_action\<close>, lines 278-282.\<close>

definition get_action ::
  "'w externals \<Rightarrow> nat \<Rightarrow> real \<Rightarrow> real list \<Rightarrow> real list \<Rightarrow> real \<Rightarrow> 'w \<Rightarrow> real list \<times> 'w" where
  "get_action X act_dim act_limit theta ob noise_scale w =
     (let (z, w1) = randn X w;
          a = map (\<lambda>i. ac_act X theta ob i + noise_scale * z i) [0..<act_dim]
      in (map (\<lambda>x. clip x 0 act_limit) a, w1))"

subsection \<open>test_agent\<close>

text \<open>
  The inner loop of \<open>test_agent\<close>, lines 287-291. \<open>ep_len\<close> starts at 0 and grows
  by one, so the loop \<^verbatim>\<open>while not(d or (ep_len == max_ep_len))\<close> is a recursion on
  the steps that remain, \<open>max_ep_len - ep_len\<close>.
\<close>

fun test_episode ::
  "'w externals \<Rightarrow> nat \<Rightarrow> real \<Rightarrow> real list \<Rightarrow> nat \<Rightarrow> real list \<Rightarrow> bool \<Rightarrow> real \<Rightarrow> nat \<Rightarrow> 'w
     \<Rightarrow> real \<times> nat \<times> 'w" where
  "test_episode X act_dim act_limit theta 0 ob d ep_ret ep_len w = (ep_ret, ep_len, w)"
| "test_episode X act_dim act_limit theta (Suc k) ob d ep_ret ep_len w =
     (if d then (ep_ret, ep_len, w)
      else
        (let (a, w1) = get_action X act_dim act_limit theta ob 0 w;
             ((ob', r, d'), w2) = test_env_step X a w1
         in test_episode X act_dim act_limit theta k ob' d' (ep_ret + r) (ep_len + 1) w2))"

text \<open>\<open>test_agent\<close>, lines 284-292; the first argument counts the episodes left.\<close>

fun test_agent ::
  "'w externals \<Rightarrow> hyper \<Rightarrow> nat \<Rightarrow> real \<Rightarrow> real list \<Rightarrow> nat \<Rightarrow> 'w \<Rightarrow> 'w" where
  "test_agent X hp act_dim act_limit theta 0 w = w"
| "test_agent X hp act_dim act_limit theta (Suc j) w =
     (let (ob, w1) = test_env_reset X w;
          (ret, len, w2) = test_episode X act_dim act_limit theta (max_ep_len hp) ob False 0 0 w1;
          w3 = logger_store X ''eval_episode_return'' [ret] w2;
          w4 = logger_store X ''eval_episode_length'' [real len] w3
      in test_agent X hp act_dim act_limit theta j w4)"

subsection \<open>The training loop\<close>

text \<open>
  \<open>os.path.join\<close> of two components.
\<close>

definition path_join :: "string \<Rightarrow> string \<Rightarrow> string" where
  "path_join a b =
     (if b \<noteq> [] \<and> hd b = CHR ''/'' then b
      else if a = [] \<or> last a = CHR ''/'' then a @ b
      else a @ ''/'' @ b)"

text \<open>
  The state of the loop's local variables, with the file system of checkpoints. Four
  fields only record what happened: \<open>env_steps\<close> counts the calls of
  \<open>env.step\<close>, \<open>update_log\<close> holds the step \<open>t\<close> of every call of \<open>update\<close>,
  \<open>avg_log\<close> the value of \<open>avg_episode_ret\<close> at the end of every epoch, and
  \<open>saved\<close> the pair \<open>(epoch, key)\<close> of every call of \<open>save_model\<close>.
  \<open>prev_best\<close> is \<open>None\<close> for \<^verbatim>\<open>float('-inf')\<close>.
\<close>

record 'w train_state =
  world :: 'w
  o' :: "real list"
  ep_ret :: real
  ep_len :: nat
  replay_buffer :: ReplayBuffer
  networks :: nets
  prev_best :: "real option"
  files :: "string \<Rightarrow> checkpoint option"
  env_steps :: nat
  update_log :: "nat list"
  avg_log :: "real list"
  saved :: "(nat \<times> real) list"

text \<open>Lines 317-323: the action of step \<open>t\<close>.\<close>

definition select_action ::
  "'w externals \<Rightarrow> hyper \<Rightarrow> nat \<Rightarrow> real \<Rightarrow> nat \<Rightarrow> 'w train_state \<Rightarrow> real list \<times> 'w" where
  "select_action X hp act_dim act_limit t s =
     (if t > start_steps hp
      then get_action X act_dim act_limit (ac (networks s)) (o' s) (act_noise hp) (world s)
      else action_space_sample X (world s))"

text \<open>Line 338: the flag that is stored, from the length of the episode and the
  environment's flag.\<close>

definition stored_done :: "hyper \<Rightarrow> nat \<Rightarrow> bool \<Rightarrow> bool" where
  "stored_done hp ep_len1 d = (if ep_len1 = max_ep_len hp then False else d)"

text \<open>Lines 317-350: one step of the environment, stored, and the end of a trajectory.\<close>

definition interact ::
  "'w externals \<Rightarrow> hyper \<Rightarrow> nat \<Rightarrow> real \<Rightarrow> nat \<Rightarrow> 'w train_state \<Rightarrow> error + 'w train_state" where
  "interact X hp act_dim act_limit t s =
     (let (a, w1) = select_action X hp act_dim act_limit t s;
          ((o2, r, d), w2) = env_step X a w1;
          ep_ret1 = ep_ret s + r;
          ep_len1 = ep_len s + 1;
          d1 = stored_done hp ep_len1 d
      in ebind (store (replay_buffer s) (o' s) a r o2 d1) (\<lambda>rb.
           if d1 \<or> ep_len1 = max_ep_len hp then
             (let w3 = logger_store X ''episode_return'' [ep_ret1] w2;
                  w4 = logger_store X ''episode_length'' [real ep_len1] w3;
                  (o3, w5) = env_reset X w4
              in Inr (s\<lparr>world := w5, o' := o3, ep_ret := 0, ep_len := 0,
                         replay_buffer := rb, env_steps := env_steps s + 1\<rparr>))
           else Inr (s\<lparr>world := w2, o' := o2, ep_ret := ep_ret1, ep_len := ep_len1,
                        replay_buffer := rb, env_steps := env_steps s + 1\<rparr>)))"

text \<open>Lines 354-356: \<open>n\<close> more rounds of the burst of step \<open>t\<close>, each a fresh
  batch and one call of \<open>update\<close> on it.\<close>

fun update_burst ::
  "'w externals \<Rightarrow> hyper \<Rightarrow> nat \<Rightarrow> nat \<Rightarrow> 'w train_state \<Rightarrow> error + 'w train_state" where
  "update_burst X hp t 0 s = Inr s"
| "update_burst X hp t (Suc n) s =
     (let (raw, w1) = random_raw X (world s)
      in ebind (sample_batch raw (replay_buffer s) (batch_size hp)) (\<lambda>data.
           let (nn, w2) = update X (polyak hp) data (networks s) w1
           in update_burst X hp t n
                (s\<lparr>world := w2, networks := nn, update_log := update_log s @ [t]\<rparr>)))"

text \<open>Lines 352-356. The \<open>and\<close> of line 353 does not evaluate the remainder when
  \<open>t < update_after\<close>.\<close>

definition update_handling ::
  "'w externals \<Rightarrow> hyper \<Rightarrow> nat \<Rightarrow> 'w train_state \<Rightarrow> error + 'w train_state" where
  "update_handling X hp t s =
     (if t \<ge> update_after hp then
        (if update_every hp = 0 then Inl ZeroDivisionError
         else if t mod update_every hp = 0 then update_burst X hp t (update_every hp) s
         else Inr s)
      else Inr s)"

text \<open>\<open>save_model\<close>, lines 294-304.\<close>

definition save_model ::
  "'w externals \<Rightarrow> string \<Rightarrow> nat \<Rightarrow> real \<Rightarrow> 'w train_state \<Rightarrow> 'w train_state" where
  "save_model X output_dir epoch key s =
     (let savepath = path_join (path_join output_dir ''checkpoints'') (ckpt_name X epoch key)
      in s\<lparr>files := (files s)(savepath \<mapsto>
               \<lparr>ckpt_epoch = epoch, model_state_dict = ac (networks s),
                pi_optimizer_state_dict = pi_optimizer (networks s),
                q_optimizer_state_dict = q_optimizer (networks s)\<rparr>),
            saved := saved s @ [(epoch, key)]\<rparr>)"

text \<open>Lines 312 and 384-387: the comparison with \<open>prev_best\<close> and its new value.\<close>

definition exceeds_best :: "real \<Rightarrow> real option \<Rightarrow> bool" where
  "exceeds_best avg best = (case best of None \<Rightarrow> True | Some b \<Rightarrow> avg > b)"

definition max_best :: "real option \<Rightarrow> real \<Rightarrow> real option" where
  "max_best best avg = (case best of None \<Rightarrow> Some avg | Some b \<Rightarrow> Some (max b avg))"

text \<open>Lines 358-387: the end of an epoch.\<close>

definition epoch_handling ::
  "'w externals \<Rightarrow> hyper \<Rightarrow> string \<Rightarrow> nat \<Rightarrow> real \<Rightarrow> nat \<Rightarrow> 'w train_state
     \<Rightarrow> error + 'w train_state" where
  "epoch_handling X hp output_dir act_dim act_limit t s =
     (if steps_per_epoch hp = 0 then Inl ZeroDivisionError
      else if (t + 1) mod steps_per_epoch hp = 0 then
        (let epoch = (t + 1) div steps_per_epoch hp
         in if save_freq hp = 0 then Inl ZeroDivisionError
            else
              (let w1 = (if epoch mod save_freq hp = 0 \<or> epoch = epochs hp
                         then logger_save_state X (world s) else world s);
                   w2 = test_agent X hp act_dim act_limit (ac (networks s))
                          (num_test_episodes hp) w1;
                   avg_episode_ret = logger_mean X ''episode_return'' w2;
                   w3 = logger_dump X epoch t w2;
                   s1 = s\<lparr>world := w3, avg_log := avg_log s @ [avg_episode_ret]\<rparr>;
                   s2 = (if exceeds_best avg_episode_ret (prev_best s1)
                         then save_model X output_dir epoch avg_episode_ret s1 else s1)
               in Inr (s2\<lparr>prev_best := max_best (prev_best s2) avg_episode_ret\<rparr>)))
      else Inr s)"

text \<open>Lines 315-387: the body of the main loop, and the loop over \<open>range(total_steps)\<close>.\<close>

definition loop_body ::
  "'w externals \<Rightarrow> hyper \<Rightarrow> string \<Rightarrow> nat \<Rightarrow> real \<Rightarrow> nat \<Rightarrow> 'w train_state
     \<Rightarrow> error + 'w train_state" where
  "loop_body X hp output_dir act_dim act_limit t s =
     ebind (interact X hp act_dim act_limit t s) (\<lambda>s1.
     ebind (update_handling X hp t s1) (\<lambda>s2.
       epoch_handling X hp output_dir act_dim act_limit t s2))"

fun main_loop ::
  "'w externals \<Rightarrow> hyper \<Rightarrow> string \<Rightarrow> nat \<Rightarrow> real \<Rightarrow> nat list \<Rightarrow> 'w train_state
     \<Rightarrow> error + 'w train_state" where
  "main_loop X hp output_dir act_dim act_limit [] s = Inr s"
| "main_loop X hp output_dir act_dim act_limit (t # ts) s =
     ebind (loop_body X hp output_dir act_dim act_limit t s)
       (main_loop X hp output_dir act_dim act_limit ts)"

text \<open>Lines 195-204: the checkpoint of eval mode, read by \<open>torch.load\<close>, which raises
  when there is no such file.\<close>

definition load_checkpoint :: "(string \<Rightarrow> checkpoint option) \<Rightarrow> string \<Rightarrow> nets \<Rightarrow> error + nets" where
  "load_checkpoint fs output_dir nn =
     (let chkpt_file = path_join (path_join output_dir ''checkpoints'') ''ckpt_1_-183.19.pth''
      in case fs chkpt_file of
           None \<Rightarrow> Inl FileNotFoundError
         | Some checkpoint \<Rightarrow>
             Inr (nn\<lparr>ac := model_state_dict checkpoint,
                     ac_targ := model_state_dict checkpoint,
                     pi_optimizer := pi_optimizer_state_dict checkpoint,
                     q_optimizer := q_optimizer_state_dict checkpoint\<rparr>))"

text \<open>
  \<^verbatim>\<open>s.split(c)\<close> for a separator of one character: the pieces between the
  separators, one more than there are separators.
\<close>

fun split_on :: "char \<Rightarrow> string \<Rightarrow> string list" where
  "split_on c [] = [[]]"
| "split_on c (x # xs) =
     (if x = c then [] # split_on c xs
      else (case split_on c xs of [] \<Rightarrow> [[x]] | p # ps \<Rightarrow> (x # p) # ps))"

text \<open>Line 140, \<^verbatim>\<open>exp_name = output_dir.split('/')[1]\<close>: IndexError when
  \<open>output_dir\<close> has no \<open>/\<close>.\<close>

definition exp_name_of :: "string \<Rightarrow> error + string" where
  "exp_name_of output_dir =
     (let parts = split_on CHR ''/'' output_dir
      in if 1 < length parts then Inr (parts ! 1) else Inl IndexError)"

text \<open>
  \<open>ddpg\<close>, lines 131-389: the set-up, then the training loop in mode \<open>train\<close> and
  \<open>test_agent\<close> in mode \<open>eval\<close>. The directories of lines 142-162 are created
  inside \<open>try\<close> blocks that swallow every failure. The target networks start as a
  deep copy of the live ones.
\<close>

definition ddpg ::
  "'w externals \<Rightarrow> hyper \<Rightarrow> string \<Rightarrow> string \<Rightarrow> (string \<Rightarrow> checkpoint option) \<Rightarrow> 'w
     \<Rightarrow> error + 'w train_state" where
  "ddpg X hp mode output_dir fs w =
     ebind (exp_name_of output_dir) (\<lambda>exp_name.
      let act_dim = length (action_high X)
      in ebind (act_limit_of (action_high X)) (\<lambda>act_limit.
         let (theta, pi_opt, q_opt) = init_nets X;
             nn = \<lparr>ac = theta, ac_targ = theta, pi_optimizer = pi_opt, q_optimizer = q_opt\<rparr>
         in ebind (if mode = ''eval'' then load_checkpoint fs output_dir nn else Inr nn) (\<lambda>nn1.
            let rb = ReplayBuffer_init (obs_dim X) act_dim (replay_size hp);
                s0 = \<lparr>world = w, o' = [], ep_ret = 0, ep_len = 0, replay_buffer = rb,
                      networks = nn1, prev_best = None, files = fs, env_steps = 0,
                      update_log = [], avg_log = [], saved = []\<rparr>
            in if mode = ''train'' then
                 (let total_steps = steps_per_epoch hp * epochs hp;
                      (ob, w1) = env_reset X w
                  in main_loop X hp output_dir act_dim act_limit [0..<total_steps]
                       (s0\<lparr>world := w1, o' := ob\<rparr>))
               else if mode = ''eval'' then
                 Inr (s0\<lparr>world := test_agent X hp act_dim act_limit (ac nn1)
                                     (num_test_episodes hp) w\<rparr>)
               else Inr s0)))"

subsection \<open>What a run is measured against\<close>

text \<open>What \<open>env.step\<close> returns in step \<open>t\<close> from state \<open>s\<close>: the triple
  \<open>(o2, r, d)\<close> of line 326.\<close>

definition env_response ::
  "'w externals \<Rightarrow> hyper \<Rightarrow> nat \<Rightarrow> real \<Rightarrow> nat \<Rightarrow> 'w train_state \<Rightarrow> real list \<times> real \<times> bool" where
  "env_response X hp act_dim act_limit t s =
     (let (a, w1) = select_action X hp act_dim act_limit t s in fst (env_step X a w1))"

text \<open>The steps of the calls of \<open>update\<close> that step \<open>t\<close> makes: \<open>update_every\<close>
  of them when the condition of line 353 holds, none otherwise.\<close>

definition burst_of :: "hyper \<Rightarrow> nat \<Rightarrow> nat list" where
  "burst_of hp t =
     (if update_after hp \<le> t \<and> t mod update_every hp = 0
      then replicate (update_every hp) t else [])"

text \<open>The call of \<open>save_model\<close> that an epoch with average \<open>avg\<close> makes, if any; the
  best average of a list of epochs, \<open>None\<close> before the first; and the epochs of a
  list of averages that strictly exceed every epoch before them, with their average.\<close>

definition best_step :: "real option \<Rightarrow> nat \<Rightarrow> real \<Rightarrow> (nat \<times> real) list" where
  "best_step best epoch avg = (if exceeds_best avg best then [(epoch, avg)] else [])"

definition best_of :: "real list \<Rightarrow> real option" where
  "best_of avgs = fold (\<lambda>avg best. max_best best avg) avgs None"

definition best_list :: "real list \<Rightarrow> (nat \<times> real) list" where
  "best_list avgs =
     [(e, avgs ! (e - 1)). e \<leftarrow> [1..<Suc (length avgs)], \<forall>j<e - 1. avgs ! j < avgs ! (e - 1)]"

text \<open>The batch that holds the rows of a buffer at the indices \<open>idxs\<close>.\<close>

definition rows_at :: "ReplayBuffer \<Rightarrow> int list \<Rightarrow> batch" where
  "rows_at b idxs =
     \<lparr>batch_obs = map (\<lambda>i. obs_buf b ! nat i) idxs,
      batch_obs2 = map (\<lambda>i. obs2_buf b ! nat i) idxs,
      batch_act = map (\<lambda>i. act_buf b ! nat i) idxs,
      batch_rew = map (\<lambda>i. rew_buf b ! nat i) idxs,
      batch_done = map (\<lambda>i. done_buf b ! nat i) idxs\<rparr>"

text \<open>One round of the burst on the networks and the world: a raw draw of the
  generator, the batch of \<open>batch_size\<close> rows of the buffer at the indices drawn from
  \<open>[0, size)\<close>, and one call of \<open>update\<close> on that batch.\<close>

definition update_round ::
  "'w externals \<Rightarrow> hyper \<Rightarrow> ReplayBuffer \<Rightarrow> nets \<times> 'w \<Rightarrow> nets \<times> 'w" where
  "update_round X hp rb =
     (\<lambda>(nn, w). let (raw, w1) = random_raw X w
                in update X (polyak hp)
                     (rows_at rb (map (\<lambda>j. int (raw j mod size' rb)) [0..<batch_size hp]))
                     nn w1)"

text \<open>The world right after the call of \<open>env.step\<close> in step \<open>t\<close> from state \<open>s\<close>.\<close>

definition env_world ::
  "'w externals \<Rightarrow> hyper \<Rightarrow> nat \<Rightarrow> real \<Rightarrow> nat \<Rightarrow> 'w train_state \<Rightarrow> 'w" where
  "env_world X hp act_dim act_limit t s =
     (let (a, w1) = select_action X hp act_dim act_limit t s in snd (env_step X a w1))"

text \<open>The value of \<open>avg_episode_ret\<close> at the end of the epoch that step \<open>t\<close> closes
  from state \<open>s\<close>: the logger's mean of \<open>episode_return\<close>, read after
  \<open>save_state\<close> (when it is due) and \<open>test_agent\<close>. And the path that
  \<open>save_model\<close> writes.\<close>

definition epoch_avg ::
  "'w externals \<Rightarrow> hyper \<Rightarrow> nat \<Rightarrow> real \<Rightarrow> nat \<Rightarrow> 'w train_state \<Rightarrow> real" where
  "epoch_avg X hp act_dim act_limit t s =
     logger_mean X ''episode_return''
       (test_agent X hp act_dim act_limit (ac (networks s)) (num_test_episodes hp)
          (if ((t + 1) div steps_per_epoch hp) mod save_freq hp = 0 \<or>
              (t + 1) div steps_per_epoch hp = epochs hp
           then logger_save_state X (world s) else world s))"

definition savepath_of :: "'w externals \<Rightarrow> string \<Rightarrow> nat \<Rightarrow> real \<Rightarrow> string" where
  "savepath_of X output_dir epoch key =
     path_join (path_join output_dir ''checkpoints'') (ckpt_name X epoch key)"

text \<open>The raw outputs of the generator, as lists of \<open>n\<close> values below \<open>m\<close>, from
  which \<open>sample_batch\<close> draws exactly the indices \<open>js\<close>. When every raw output is
  equally likely, the size of this set measures how likely the draw \<open>js\<close> is.\<close>

definition raws_giving :: "ReplayBuffer \<Rightarrow> nat \<Rightarrow> nat list \<Rightarrow> nat list set" where
  "raws_giving b m js =
     {rs. length rs = length js \<and> set rs \<subseteq> {..<m} \<and>
          sample_idxs (\<lambda>i. rs ! i) b (length js) = Inr (map int js)}"

subsection \<open>A small concrete run\<close>

text \<open>An environment that counts its steps and ends an episode on every third one, an
  actor that always answers 5, noise that is always 100, gradient steps that add one to
  every parameter, and a logger whose mean of \<open>episode_return\<close> is 5, 3, 7, 7, 9 after
  1, 2, 3, 4, 5 steps of the environment. The action space has the bounds 2 and 1, and
  the checkpoint of epoch \<open>e\<close> is named with \<open>e\<close> strokes.\<close>

definition demo_world :: "nat externals" where
  "demo_world =
     \<lparr>obs_dim = 1, action_high = [2, 1],
      env_reset = (\<lambda>w. ([0], w)),
      env_step = (\<lambda>a w. (([real (w + 1)], 1, (w + 1) mod 3 = 0), w + 1)),
      action_space_sample = (\<lambda>w. ([1, 1], w)),
      test_env_reset = (\<lambda>w. ([0], w)),
      test_env_step = (\<lambda>a w. (([0], 1, True), w)),
      randn = (\<lambda>w. (\<lambda>i. 100, w)),
      random_raw = (\<lambda>w. (\<lambda>j. j + w, w)),
      init_nets = ([0, 0], [], []),
      ac_act = (\<lambda>theta ob i. 5),
      q_step = (\<lambda>data theta targ q_opt. ((map (\<lambda>x. x + 1) theta, q_opt), 0, [])),
      pi_step = (\<lambda>data theta pi_opt. ((map (\<lambda>x. x + 1) theta, pi_opt), 0)),
      logger_store = (\<lambda>k v w. w),
      logger_save_state = (\<lambda>w. w),
      logger_mean = (\<lambda>k w. if w = 1 then 5 else if w = 2 then 3 else if w = 5 then 9 else 7),
      logger_dump = (\<lambda>epoch t w. w),
      ckpt_name = (\<lambda>epoch key. ''ckpt_'' @ replicate epoch CHR ''I'' @ ''.pth'')\<rparr>"

definition demo_hyper :: hyper where
  "demo_hyper =
     \<lparr>steps_per_epoch = 1, epochs = 5, replay_size = 2, polyak = 1 / 2, batch_size = 2,
      start_steps = 1, update_after = 1, update_every = 2, act_noise = 1,
      num_test_episodes = 1, max_ep_len = 3, save_freq = 1\<rparr>"

definition demo_nets :: nets where
  "demo_nets = \<lparr>ac = [0, 0], ac_targ = [4, 8], pi_optimizer = [], q_optimizer = []\<rparr>"

definition demo_batch :: batch where
  "demo_batch = \<lparr>batch_obs = [], batch_obs2 = [], batch_act = [], batch_rew = [], batch_done = []\<rparr>"

text \<open>A state whose episode has run two steps, with an empty buffer of capacity 2, and
  a buffer of capacity 3 that holds two transitions.\<close>

definition demo_state :: "nat train_state" where
  "demo_state =
     \<lparr>world = 2, o' = [2], ep_ret = 2, ep_len = 2,
      replay_buffer = ReplayBuffer_init 1 2 2,
      networks = demo_nets, prev_best = None, files = Map.empty, env_steps = 2,
      update_log = [], avg_log = [], saved = []\<rparr>"

definition demo_buffer :: ReplayBuffer where
  "demo_buffer =
     \<lparr>obs_buf = [[1], [2], [0]], obs2_buf = [[2], [3], [0]], act_buf = [[10], [20], [0]],
      rew_buf = [5, 6, 0], done_buf = [0, 1, 0], ptr = 2, size' = 2, max_size = 3\<rparr>"

section \<open>Properties\<close>

subsection \<open>The error monad\<close>

lemma ebind_Inr [simp]: "ebind (Inr x) f = f x"
  by (simp add: ebind_def)

lemma ebind_Inl [simp]: "ebind (Inl e) f = Inl e"
  by (simp add: ebind_def)

lemma ebind_eq_Inr: "ebind m f = Inr y \<longleftrightarrow> (\<exists>x. m = Inr x \<and> f x = Inr y)"
  by (cases m) simp_all

lemma ebind_assoc: "ebind (ebind m f) g = ebind m (\<lambda>x. ebind (f x) g)"
  by (cases m) simp_all

subsection \<open>The replay buffer is a ring\<close>

lemma store_ok:
  assumes "rb_inv b"
  shows "store b obs act rew next_obs done =
     Inr (b\<lparr>obs_buf := (obs_buf b)[ptr b := obs], obs2_buf := (obs2_buf b)[ptr b := next_obs],
            act_buf := (act_buf b)[ptr b := act], rew_buf := (rew_buf b)[ptr b := rew],
            done_buf := (done_buf b)[ptr b := of_bool done],
            ptr := (ptr b + 1) mod max_size b,
            size' := min (size' b + 1) (max_size b)\<rparr>)"
  using assms by (simp add: store_def setitem_def rb_inv_def)

lemma store_inv:
  assumes "rb_inv b" and "store b obs act rew next_obs done = Inr b'"
  shows "rb_inv b' \<and> max_size b' = max_size b"
  using assms(2) unfolding store_ok[OF assms(1)] using assms(1)
  by (auto simp: rb_inv_def)

lemma store_size_pos:
  assumes "rb_inv b" and "store b ob a r ob2 d = Inr b'"
  shows "0 < size' b'"
  using assms(2) unfolding store_ok[OF assms(1)] using assms(1)
  by (auto simp: rb_inv_def)

lemma store_all_append:
  "store_all b (ts @ us) = ebind (store_all b ts) (\<lambda>b'. store_all b' us)"
proof (induction ts arbitrary: b)
  case Nil
  show ?case by simp
next
  case (Cons t ts)
  obtain ob a r ob2 d where t: "t = (ob, a, r, ob2, d)"
    by (cases t)
  show ?case
    by (simp add: t Cons.IH ebind_assoc)
qed

lemma init_inv: "0 < C \<Longrightarrow> rb_inv (ReplayBuffer_init od ad C)"
  by (simp add: rb_inv_def ReplayBuffer_init_def)

lemma entry_store:
  assumes "rb_inv b" and "i < max_size b"
  shows "entry (b\<lparr>obs_buf := (obs_buf b)[ptr b := ob], obs2_buf := (obs2_buf b)[ptr b := ob2],
            act_buf := (act_buf b)[ptr b := a], rew_buf := (rew_buf b)[ptr b := r],
            done_buf := (done_buf b)[ptr b := of_bool d],
            ptr := p', size' := s'\<rparr>) i =
         (if i = ptr b then as_row (ob, a, r, ob2, d) else entry b i)"
  using assms by (simp add: entry_def as_row_def rb_inv_def)

lemma store_all_ring:
  assumes C: "0 < C"
  shows "\<exists>b. store_all (ReplayBuffer_init od ad C) ts = Inr b \<and> rb_inv b \<and> max_size b = C \<and>
           ptr b = length ts mod C \<and> size' b = min (length ts) C \<and>
           (\<forall>k < length ts. length ts \<le> k + C \<longrightarrow> entry b (k mod C) = as_row (ts ! k))"
proof (induction ts rule: rev_induct)
  case Nil
  show ?case using C by (simp add: init_inv) (simp add: ReplayBuffer_init_def)
next
  case (snoc t ts)
  then obtain b where b: "store_all (ReplayBuffer_init od ad C) ts = Inr b" "rb_inv b"
      "max_size b = C" "ptr b = length ts mod C" "size' b = min (length ts) C"
      and old: "\<And>k. k < length ts \<Longrightarrow> length ts \<le> k + C \<Longrightarrow> entry b (k mod C) = as_row (ts ! k)"
    by blast
  obtain ob a r ob2 d where t: "t = (ob, a, r, ob2, d)"
    by (cases t)
  define b' where "b' = b\<lparr>obs_buf := (obs_buf b)[ptr b := ob], obs2_buf := (obs2_buf b)[ptr b := ob2],
            act_buf := (act_buf b)[ptr b := a], rew_buf := (rew_buf b)[ptr b := r],
            done_buf := (done_buf b)[ptr b := of_bool d],
            ptr := (ptr b + 1) mod max_size b,
            size' := min (size' b + 1) (max_size b)\<rparr>"
  have st: "store b ob a r ob2 d = Inr b'"
    unfolding b'_def by (rule store_ok[OF b(2)])
  have run: "store_all (ReplayBuffer_init od ad C) (ts @ [t]) = Inr b'"
    by (simp add: store_all_append b(1) t st)
  have inv': "rb_inv b'" "max_size b' = C"
    using store_inv[OF b(2) st] b(3) by simp_all
  have p': "ptr b' = length (ts @ [t]) mod C"
    by (simp add: b'_def b(3,4) mod_Suc_eq)
  have s': "size' b' = min (length (ts @ [t])) C"
    by (simp add: b'_def b(3,5))
  have ent: "entry b' (k mod C) = as_row ((ts @ [t]) ! k)"
    if k: "k < length (ts @ [t])" "length (ts @ [t]) \<le> k + C" for k
  proof (cases "k = length ts")
    case True
    have "entry b' (k mod C) = (if k mod C = ptr b then as_row (ob, a, r, ob2, d) else entry b (k mod C))"
      unfolding b'_def by (rule entry_store[OF b(2)]) (simp add: b(3) C)
    then show ?thesis by (simp add: True b(4) t)
  next
    case False
    then have kl: "k < length ts" using k(1) by simp
    have ne: "k mod C \<noteq> length ts mod C"
    proof
      assume e: "k mod C = length ts mod C"
      have "(length ts - k) mod C = 0"
        using kl e by (metis less_imp_le_nat mod_eq_dvd_iff_nat dvd_imp_mod_0)
      moreover have "0 < length ts - k" "length ts - k < C" using kl k(2) by simp_all
      ultimately show False by simp
    qed
    have "entry b' (k mod C) = (if k mod C = ptr b then as_row (ob, a, r, ob2, d) else entry b (k mod C))"
      unfolding b'_def by (rule entry_store[OF b(2)]) (simp add: b(3) C)
    then have "entry b' (k mod C) = entry b (k mod C)" using ne b(4) by simp
    also have "\<dots> = as_row (ts ! k)" using old[OF kl] k(2) by simp
    finally show ?thesis by (simp add: nth_append kl)
  qed
  show ?case using run inv' p' s' ent by blast
qed

lemma entries_nth: "i < max_size b \<Longrightarrow> entries b ! i = entry b i"
  by (simp add: entries_def)

lemma length_entries: "length (entries b) = max_size b"
  by (simp add: entries_def)

text \<open>Claim C1. After \<open>n\<close> calls of \<open>store\<close> on a buffer created with capacity \<open>C\<close>
  (\<open>C > 0\<close>, as \<open>n mod C\<close> asks), every call returns, \<open>size\<close> is \<open>min n C\<close> and
  \<open>ptr\<close> is \<open>n mod C\<close>. While \<open>n \<le> C\<close> the rows \<open>[0, size)\<close> are the \<open>n\<close>
  transitions in the order they were stored; once \<open>n \<ge> C\<close> the rows, read round the
  ring from \<open>ptr\<close>, are the last \<open>C\<close> transitions from the oldest to the newest, so
  the next write falls on the oldest.\<close>

theorem store_ring_invariant:
  assumes C: "0 < C"
  shows "\<exists>b. store_all (ReplayBuffer_init od ad C) ts = Inr b \<and>
           size' b = min (length ts) C \<and> ptr b = length ts mod C \<and>
           (length ts \<le> C \<longrightarrow> take (size' b) (entries b) = map as_row ts) \<and>
           (C \<le> length ts \<longrightarrow>
              rotate (ptr b) (entries b) = map as_row (drop (length ts - C) ts))"
proof -
  let ?n = "length ts"
  obtain b where run: "store_all (ReplayBuffer_init od ad C) ts = Inr b"
    and m: "max_size b = C" and p: "ptr b = ?n mod C" and s: "size' b = min ?n C"
    and ent: "\<And>k. k < ?n \<Longrightarrow> ?n \<le> k + C \<Longrightarrow> entry b (k mod C) = as_row (ts ! k)"
    using store_all_ring[OF C, of od ad ts] by blast
  have young: "take (size' b) (entries b) = map as_row ts" if le: "?n \<le> C"
  proof (rule nth_equalityI)
    show "length (take (size' b) (entries b)) = length (map as_row ts)"
      using le by (simp add: s length_entries m)
  next
    fix i assume "i < length (take (size' b) (entries b))"
    then have i: "i < ?n" using le by (simp add: s length_entries m)
    then have "entry b (i mod C) = as_row (ts ! i)" using le by (intro ent) simp_all
    moreover have "i mod C = i" using i le by simp
    ultimately show "take (size' b) (entries b) ! i = map as_row ts ! i"
      using i le by (simp add: s entries_nth m)
  qed
  have full: "rotate (ptr b) (entries b) = map as_row (drop (?n - C) ts)" if ge: "C \<le> ?n"
  proof (rule nth_equalityI)
    show "length (rotate (ptr b) (entries b)) = length (map as_row (drop (?n - C) ts))"
      using ge by (simp add: length_entries m)
  next
    fix i assume "i < length (rotate (ptr b) (entries b))"
    then have i: "i < C" by (simp add: length_entries m)
    let ?k = "?n - C + i"
    have k: "?k < ?n" "?n \<le> ?k + C" using i ge C by simp_all
    have "?k + C = ?n + i" using ge by simp
    then have kmod: "?k mod C = (?n + i) mod C"
      by (metis mod_add_self2)
    have "rotate (ptr b) (entries b) ! i = entries b ! ((ptr b + i) mod C)"
      using i by (simp add: nth_rotate length_entries m)
    also have "\<dots> = entry b ((?n + i) mod C)"
      using C by (simp add: entries_nth m p mod_add_left_eq)
    also have "\<dots> = as_row (ts ! ?k)"
      using ent[OF k] by (simp add: kmod)
    finally show "rotate (ptr b) (entries b) ! i = map as_row (drop (?n - C) ts) ! i"
      using i ge by (simp add: add.commute)
  qed
  show ?thesis using run s p young full by blast
qed

theorem store_ring_invariant_witness:
  "(0::nat) < 2 \<and>
   (\<exists>b. store_all (ReplayBuffer_init 1 1 2)
          [([1], [10], 5, [2], False), ([2], [20], 6, [3], False), ([3], [30], 7, [4], True)] = Inr b \<and>
        size' b = 2 \<and> ptr b = 1 \<and>
        rotate (ptr b) (entries b) =
          [([2], [20], 6, [3], 0), ([3], [30], 7, [4], 1)])"
  using store_ring_invariant [of 2 1 1
      "[([1], [10], 5, [2], False), ([2], [20], 6, [3], False), ([3], [30], 7, [4], True)]"]
  by (auto simp: as_row_def)

text \<open>With capacity 0 the first \<open>store\<close> raises IndexError.\<close>

lemma store_empty_capacity:
  "store (ReplayBuffer_init od ad 0) ob a r ob2 d = Inl IndexError"
  by (simp add: store_def setitem_def ReplayBuffer_init_def)

subsection \<open>sample_batch\<close>

lemma getitem_ok:
  assumes "\<forall>i\<in>set idxs. 0 \<le> i \<and> i < int (length buf)"
  shows "getitem buf idxs = Inr (map (\<lambda>i. buf ! nat i) idxs)"
proof -
  have "list_all (\<lambda>i. - int (length buf) \<le> i \<and> i < int (length buf)) idxs"
    using assms by (auto simp: list_all_iff)
  moreover have "map (\<lambda>i. buf ! nat (if i < 0 then i + int (length buf) else i)) idxs =
      map (\<lambda>i. buf ! nat i) idxs"
    using assms by (intro map_cong) auto
  ultimately show ?thesis by (simp add: getitem_def)
qed

lemma sample_idxs_ok:
  assumes "0 < size' b"
  shows "sample_idxs raw b n = Inr (map (\<lambda>j. int (raw j mod size' b)) [0..<n])"
  using assms by (simp add: sample_idxs_def randint_def zmod_int)

lemma sample_batch_ok:
  assumes inv: "rb_inv b" and k: "0 < size' b"
  shows "sample_batch raw b n =
     Inr \<lparr>batch_obs = map (\<lambda>i. obs_buf b ! nat i) (map (\<lambda>j. int (raw j mod size' b)) [0..<n]),
          batch_obs2 = map (\<lambda>i. obs2_buf b ! nat i) (map (\<lambda>j. int (raw j mod size' b)) [0..<n]),
          batch_act = map (\<lambda>i. act_buf b ! nat i) (map (\<lambda>j. int (raw j mod size' b)) [0..<n]),
          batch_rew = map (\<lambda>i. rew_buf b ! nat i) (map (\<lambda>j. int (raw j mod size' b)) [0..<n]),
          batch_done = map (\<lambda>i. done_buf b ! nat i) (map (\<lambda>j. int (raw j mod size' b)) [0..<n])\<rparr>"
proof -
  let ?idxs = "map (\<lambda>j. int (raw j mod size' b)) [0..<n]"
  have r: "\<forall>i\<in>set ?idxs. 0 \<le> i \<and> i < int (max_size b)"
  proof
    fix i assume "i \<in> set ?idxs"
    then obtain j where "i = int (raw j mod size' b)" by auto
    moreover have "raw j mod size' b < size' b" using k by simp
    moreover have "size' b \<le> max_size b" using inv by (simp add: rb_inv_def)
    ultimately show "0 \<le> i \<and> i < int (max_size b)" by simp
  qed
  have g: "getitem buf ?idxs = Inr (map (\<lambda>i. buf ! nat i) ?idxs)" if "length buf = max_size b" for buf :: "'a list"
    using r that by (intro getitem_ok) simp
  have l: "length (obs_buf b) = max_size b" "length (obs2_buf b) = max_size b"
    "length (act_buf b) = max_size b" "length (rew_buf b) = max_size b"
    "length (done_buf b) = max_size b"
    using inv by (simp_all add: rb_inv_def)
  show ?thesis
    unfolding sample_batch_def sample_idxs_ok[OF k] ebind_Inr
      g[OF l(1)] g[OF l(2)] g[OF l(3)] g[OF l(4)] g[OF l(5)] ..
qed

lemma sample_batch_empty:
  "size' b = 0 \<Longrightarrow> 0 < n \<Longrightarrow> sample_batch raw b n = Inl ValueError"
  by (simp add: sample_batch_def sample_idxs_def randint_def)

lemma sample_idxs_any:
  assumes "\<forall>j\<in>set js. j < size' b"
  shows "sample_idxs (\<lambda>i. js ! i) b (length js) = Inr (map int js)"
proof (cases "js = []")
  case True
  then show ?thesis by (simp add: sample_idxs_def randint_def)
next
  case False
  then have "0 < size' b" using assms by (cases js) auto
  then have "sample_idxs (\<lambda>i. js ! i) b (length js) =
      Inr (map (\<lambda>j. int (js ! j mod size' b)) [0..<length js])"
    by (rule sample_idxs_ok)
  also have "map (\<lambda>j. int (js ! j mod size' b)) [0..<length js] = map int js"
    using assms by (intro nth_equalityI) simp_all
  finally show ?thesis .
qed

lemma sample_batch_none:
  "sample_batch raw b 0 = Inr (rows_at b [])"
  by (simp add: sample_batch_def sample_idxs_def randint_def getitem_def rows_at_def)

lemma residue_count:
  assumes "j < k"
  shows "card {r. r < c * k \<and> r mod k = j} = c"
proof -
  have k: "0 < k" using assms by simp
  have "{r. r < c * k \<and> r mod k = j} = (\<lambda>q. q * k + j) ` {..<c}"
  proof (intro set_eqI iffI)
    fix r assume "r \<in> {r. r < c * k \<and> r mod k = j}"
    then have r: "r < c * k" "r mod k = j" by simp_all
    have "r div k < c" using r(1) k by (simp add: less_mult_imp_div_less)
    moreover have "r = (r div k) * k + j" using r(2) by (metis div_mult_mod_eq)
    ultimately show "r \<in> (\<lambda>q. q * k + j) ` {..<c}" by blast
  next
    fix r assume "r \<in> (\<lambda>q. q * k + j) ` {..<c}"
    then obtain q where q: "q < c" "r = q * k + j" by auto
    have "q * k + j < q * k + k" using assms by simp
    also have "\<dots> = Suc q * k" by simp
    also have "\<dots> \<le> c * k" using q(1) by (intro mult_le_mono1) simp
    finally have "r < c * k" using q(2) by simp
    moreover have "r mod k = j" using q(2) assms by simp
    ultimately show "r \<in> {r. r < c * k \<and> r mod k = j}" by simp
  qed
  moreover have "inj_on (\<lambda>q. q * k + j) {..<c}"
    using k by (auto simp: inj_on_def)
  ultimately show ?thesis by (simp add: card_image)
qed

lemma residue_lists_count:
  assumes "\<forall>j\<in>set js. j < k"
  shows "card {rs. list_all2 (\<lambda>r j. r < c * k \<and> r mod k = j) rs js} = c ^ length js"
  using assms
proof (induction js)
  case Nil
  have "{rs. list_all2 (\<lambda>r j. r < c * k \<and> r mod k = j) rs []} = {[]}" by auto
  then show ?case by simp
next
  case (Cons j js)
  let ?P = "\<lambda>r j. r < c * k \<and> r mod k = j"
  have "{rs. list_all2 ?P rs (j # js)} =
      (\<lambda>(r, rs). r # rs) ` ({r. ?P r j} \<times> {rs. list_all2 ?P rs js})"
    by (auto simp: list_all2_Cons2)
  moreover have "inj_on (\<lambda>(r, rs). r # rs) ({r. ?P r j} \<times> {rs. list_all2 ?P rs js})"
    by (auto simp: inj_on_def)
  ultimately have "card {rs. list_all2 ?P rs (j # js)} =
      card ({r. ?P r j} \<times> {rs. list_all2 ?P rs js})"
    by (simp add: card_image)
  also have "\<dots> = card {r. ?P r j} * card {rs. list_all2 ?P rs js}"
    by (rule card_cartesian_product)
  also have "\<dots> = c * c ^ length js"
    using Cons.IH Cons.prems residue_count[of j k c] by simp
  finally show ?case by simp
qed

lemma raws_giving_residues:
  assumes "0 < size' b"
  shows "raws_giving b m js = {rs. list_all2 (\<lambda>r j. r < m \<and> r mod size' b = j) rs js}"
proof (intro set_eqI iffI)
  fix rs assume "rs \<in> raws_giving b m js"
  then have l: "length rs = length js" and m: "set rs \<subseteq> {..<m}"
    and e: "map (\<lambda>j. int (rs ! j mod size' b)) [0..<length js] = map int js"
    by (simp_all add: raws_giving_def sample_idxs_ok[OF assms])
  have "rs ! i < m \<and> rs ! i mod size' b = js ! i" if "i < length rs" for i
  proof -
    have "rs ! i \<in> set rs" using that by simp
    then have "rs ! i < m" using m by auto
    moreover have "map (\<lambda>j. int (rs ! j mod size' b)) [0..<length js] ! i = map int js ! i"
      using e by simp
    then have "rs ! i mod size' b = js ! i" using that l by simp
    ultimately show ?thesis by simp
  qed
  then show "rs \<in> {rs. list_all2 (\<lambda>r j. r < m \<and> r mod size' b = j) rs js}"
    using l by (simp add: list_all2_conv_all_nth)
next
  fix rs assume "rs \<in> {rs. list_all2 (\<lambda>r j. r < m \<and> r mod size' b = j) rs js}"
  then have l: "length rs = length js"
    and p: "\<And>i. i < length rs \<Longrightarrow> rs ! i < m \<and> rs ! i mod size' b = js ! i"
    by (simp_all add: list_all2_conv_all_nth)
  have "set rs \<subseteq> {..<m}" using p by (auto simp: in_set_conv_nth)
  moreover have "map (\<lambda>j. int (rs ! j mod size' b)) [0..<length js] = map int js"
    using p l by (intro nth_equalityI) simp_all
  ultimately show "rs \<in> raws_giving b m js"
    using l by (simp add: raws_giving_def sample_idxs_ok[OF assms])
qed

lemma raws_giving_count:
  assumes "0 < size' b" and "\<forall>j\<in>set js. j < size' b"
  shows "card (raws_giving b (c * size' b) js) = c ^ length js"
  unfolding raws_giving_residues[OF assms(1)] by (rule residue_lists_count[OF assms(2)])

text \<open>Claim C4, as the code has it. For a buffer with \<open>size = k > 0\<close> and every
  \<open>batch_size\<close>, \<open>sample_batch\<close> returns; its \<open>batch_size\<close> indices lie in
  \<open>[0, k)\<close> and the five arrays of the batch are the rows of the five buffers at
  those same indices. For \<open>k = 0\<close> a call with \<open>batch_size \<ge> 1\<close> raises ValueError,
  and a call with \<open>batch_size = 0\<close> returns the empty batch. Every list of indices
  below \<open>k\<close>, also one with repeated indices, is the draw of some output of the
  generator, and the draw is uniform: when each raw output of the generator is one of
  \<open>c * k\<close> equally likely values, every list of \<open>batch_size\<close> indices below \<open>k\<close>
  is the draw of exactly \<open>c ^ batch_size\<close> of the lists of raw outputs.\<close>

theorem sample_batch_domain:
  assumes "rb_inv b"
  shows "(0 < size' b \<longrightarrow>
            (\<exists>idxs. sample_idxs raw b n = Inr idxs \<and> length idxs = n \<and>
               (\<forall>i\<in>set idxs. 0 \<le> i \<and> i < int (size' b)) \<and>
               sample_batch raw b n = Inr (rows_at b idxs))) \<and>
         (size' b = 0 \<and> 0 < n \<longrightarrow> sample_batch raw b n = Inl ValueError) \<and>
         (size' b = 0 \<and> n = 0 \<longrightarrow>
            sample_batch raw b n =
              Inr \<lparr>batch_obs = [], batch_obs2 = [], batch_act = [], batch_rew = [],
                   batch_done = []\<rparr>) \<and>
         ((\<forall>j\<in>set js. j < size' b) \<longrightarrow>
            sample_idxs (\<lambda>i. js ! i) b (length js) = Inr (map int js)) \<and>
         (0 < size' b \<and> (\<forall>j\<in>set js. j < size' b) \<longrightarrow>
            card (raws_giving b (c * size' b) js) = c ^ length js)"
proof -
  have "\<exists>idxs. sample_idxs raw b n = Inr idxs \<and> length idxs = n \<and>
               (\<forall>i\<in>set idxs. 0 \<le> i \<and> i < int (size' b)) \<and>
               sample_batch raw b n = Inr (rows_at b idxs)" if k: "0 < size' b"
  proof -
    let ?idxs = "map (\<lambda>j. int (raw j mod size' b)) [0..<n]"
    have "\<forall>i\<in>set ?idxs. 0 \<le> i \<and> i < int (size' b)" using k by auto
    then show ?thesis
      using sample_idxs_ok[OF k, of raw n] sample_batch_ok[OF assms k, of raw n]
      by (simp add: rows_at_def)
  qed
  moreover have "sample_batch raw b n =
      Inr \<lparr>batch_obs = [], batch_obs2 = [], batch_act = [], batch_rew = [], batch_done = []\<rparr>"
    if "n = 0"
    using that by (simp add: sample_batch_none rows_at_def)
  ultimately show ?thesis
    using sample_batch_empty[of b n raw] sample_idxs_any[of js b]
      raws_giving_count[of b js c]
    by blast
qed

text \<open>The claim says that for \<open>k = 0\<close> a call of \<open>sample_batch\<close> fails, whatever
  the \<open>batch_size\<close>. With \<open>batch_size = 0\<close> the call on an empty buffer returns the
  empty batch: \<^verbatim>\<open>randint\<close> returns the empty array for \<open>size = 0\<close> before it
  looks at the range.\<close>

theorem sample_batch_empty_counterexample:
  "rb_inv (ReplayBuffer_init 1 1 3) \<and> size' (ReplayBuffer_init 1 1 3) = 0 \<and>
   sample_batch (\<lambda>j. 0) (ReplayBuffer_init 1 1 3) 0 =
     Inr \<lparr>batch_obs = [], batch_obs2 = [], batch_act = [], batch_rew = [], batch_done = []\<rparr>"
  by (simp add: sample_batch_def sample_idxs_def randint_def getitem_def ReplayBuffer_init_def
        rb_inv_def)

theorem sample_batch_domain_witness:
  "rb_inv demo_buffer \<and> 0 < size' demo_buffer \<and>
   (\<exists>idxs. sample_idxs (\<lambda>j. 3 * j + 1) demo_buffer 3 = Inr idxs \<and> idxs = [1, 0, 1] \<and>
      sample_batch (\<lambda>j. 3 * j + 1) demo_buffer 3 =
        Inr \<lparr>batch_obs = [[2], [1], [2]], batch_obs2 = [[3], [2], [3]],
             batch_act = [[20], [10], [20]], batch_rew = [6, 5, 6], batch_done = [1, 0, 1]\<rparr>) \<and>
   rb_inv (ReplayBuffer_init 1 1 3) \<and> size' (ReplayBuffer_init 1 1 3) = 0 \<and> (0::nat) < 3 \<and>
   sample_batch (\<lambda>j. 3 * j + 1) (ReplayBuffer_init 1 1 3) 3 = Inl ValueError \<and>
   sample_batch (\<lambda>j. 3 * j + 1) (ReplayBuffer_init 1 1 3) 0 =
     Inr \<lparr>batch_obs = [], batch_obs2 = [], batch_act = [], batch_rew = [], batch_done = []\<rparr> \<and>
   sample_idxs (\<lambda>i. [1, 1, 0] ! i) demo_buffer (length [1::nat, 1, 0]) = Inr (map int [1, 1, 0]) \<and>
   card (raws_giving demo_buffer 6 [1, 1, 0]) = 27"
proof -
  have inv: "rb_inv demo_buffer" by (simp add: rb_inv_def demo_buffer_def)
  have inv0: "rb_inv (ReplayBuffer_init 1 1 3)" by (simp add: init_inv)
  have k: "0 < size' demo_buffer" by (simp add: demo_buffer_def)
  have k2: "size' demo_buffer = 2" by (simp add: demo_buffer_def)
  have k0: "size' (ReplayBuffer_init 1 1 3) = 0" by (simp add: ReplayBuffer_init_def)
  have js: "\<forall>j\<in>set [1::nat, 1, 0]. j < size' demo_buffer" by (simp add: demo_buffer_def)
  have i: "sample_idxs (\<lambda>j. 3 * j + 1) demo_buffer 3 = Inr [1, 0, 1]"
    by (simp add: sample_idxs_def randint_def demo_buffer_def upt_rec numeral_3_eq_3)
  have r: "rows_at demo_buffer [1, 0, 1] =
      \<lparr>batch_obs = [[2], [1], [2]], batch_obs2 = [[3], [2], [3]],
             batch_act = [[20], [10], [20]], batch_rew = [6, 5, 6], batch_done = [1, 0, 1]\<rparr>"
    by (simp add: rows_at_def demo_buffer_def)
  note t1 = sample_batch_domain[OF inv, of "\<lambda>j. 3 * j + 1" 3 "[1, 1, 0]" 3]
  note t2 = sample_batch_domain[OF inv0, of "\<lambda>j. 3 * j + 1" 3 "[]" 3]
  note t3 = sample_batch_domain[OF inv0, of "\<lambda>j. 3 * j + 1" 0 "[]" 3]
  have a: "\<exists>idxs. sample_idxs (\<lambda>j. 3 * j + 1) demo_buffer 3 = Inr idxs \<and> idxs = [1, 0, 1] \<and>
      sample_batch (\<lambda>j. 3 * j + 1) demo_buffer 3 =
        Inr \<lparr>batch_obs = [[2], [1], [2]], batch_obs2 = [[3], [2], [3]],
             batch_act = [[20], [10], [20]], batch_rew = [6, 5, 6], batch_done = [1, 0, 1]\<rparr>"
    using t1 k i r by auto
  have b: "sample_batch (\<lambda>j. 3 * j + 1) (ReplayBuffer_init 1 1 3) 3 = Inl ValueError"
    using t2 k0 by simp
  have c: "sample_batch (\<lambda>j. 3 * j + 1) (ReplayBuffer_init 1 1 3) 0 =
     Inr \<lparr>batch_obs = [], batch_obs2 = [], batch_act = [], batch_rew = [], batch_done = []\<rparr>"
    using t3 k0 by simp
  have d: "sample_idxs (\<lambda>i. [1, 1, 0] ! i) demo_buffer (length [1::nat, 1, 0]) =
      Inr (map int [1, 1, 0])"
    using t1 js by blast
  have "card (raws_giving demo_buffer (3 * size' demo_buffer) [1, 1, 0]) = 3 ^ length [1::nat, 1, 0]"
    using t1 k js by blast
  then have e: "card (raws_giving demo_buffer 6 [1, 1, 0]) = 27"
    by (simp add: k2)
  show ?thesis
    using inv inv0 k k0 a b c d e by simp
qed

subsection \<open>The Polyak step of update\<close>

lemma polyak_avg_length: "length (polyak_avg rho ps pts) = length pts"
  by (induction rho ps pts rule: polyak_avg.induct) simp_all

lemma polyak_avg_nth:
  "i < length ps \<Longrightarrow> i < length pts \<Longrightarrow>
     polyak_avg rho ps pts ! i = rho * pts ! i + (1 - rho) * ps ! i"
proof (induction rho ps pts arbitrary: i rule: polyak_avg.induct)
  case (1 rho p ps p_targ p_targs)
  then show ?case by (cases i) (simp_all add: mult.commute)
qed simp_all

lemma polyak_avg_beyond:
  "length ps \<le> i \<Longrightarrow> i < length pts \<Longrightarrow> polyak_avg rho ps pts ! i = pts ! i"
proof (induction rho ps pts arbitrary: i rule: polyak_avg.induct)
  case (1 rho p ps p_targ p_targs)
  then show ?case by (cases i) simp_all
qed simp_all

lemma polyak_avg_one: "polyak_avg 1 ps pts = pts"
  by (induction "1::real" ps pts rule: polyak_avg.induct) simp_all

lemma polyak_avg_zero: "length ps = length pts \<Longrightarrow> polyak_avg 0 ps pts = ps"
  by (induction "0::real" ps pts rule: polyak_avg.induct) simp_all

lemma update_ac:
  "ac (fst (update X rho data nn w)) =
     fst (fst (pi_step X data (fst (fst (q_step X data (ac nn) (ac_targ nn) (q_optimizer nn))))
       (pi_optimizer nn)))"
  by (simp add: update_def Let_def split_beta)

lemma update_ac_targ:
  "ac_targ (fst (update X rho data nn w)) =
     polyak_avg rho (ac (fst (update X rho data nn w))) (ac_targ nn)"
  by (simp add: update_def Let_def split_beta)

lemma update_all_one:
  "ac_targ (fst (update_all X 1 batches nn w)) = ac_targ nn"
proof (induction batches arbitrary: nn w)
  case Nil
  show ?case by simp
next
  case (Cons data rest)
  obtain nn' w' where u: "update X 1 data nn w = (nn', w')"
    by (cases "update X 1 data nn w")
  have "ac_targ nn' = ac_targ nn"
    using update_ac_targ[of X 1 data nn w] by (simp add: u polyak_avg_one)
  then show ?case by (simp add: u Cons.IH)
qed

text \<open>Claim C3. After one call of \<open>update\<close> with \<open>polyak = rho\<close> the live parameters are
  those the actor's gradient step returned (itself run on the result of the critic's
  step), the target keeps its length, and every target parameter that has a live
  partner is \<open>rho\<close> times its old value plus \<open>1 - rho\<close> times the new live value.
  With \<open>rho = 0\<close> and as many live as target parameters the target equals the live
  parameters after the call; with \<open>rho = 1\<close> the target is unchanged after any number
  of calls.\<close>

theorem polyak_target_update:
  "ac (fst (update X rho data nn w)) =
     fst (fst (pi_step X data (fst (fst (q_step X data (ac nn) (ac_targ nn) (q_optimizer nn))))
       (pi_optimizer nn))) \<and>
   length (ac_targ (fst (update X rho data nn w))) = length (ac_targ nn) \<and>
   (\<forall>i. i < length (ac_targ nn) \<and> i < length (ac (fst (update X rho data nn w))) \<longrightarrow>
      ac_targ (fst (update X rho data nn w)) ! i =
        rho * ac_targ nn ! i + (1 - rho) * ac (fst (update X rho data nn w)) ! i) \<and>
   (rho = 0 \<and> length (ac (fst (update X rho data nn w))) = length (ac_targ nn) \<longrightarrow>
      ac_targ (fst (update X rho data nn w)) = ac (fst (update X rho data nn w))) \<and>
   ac_targ (fst (update_all X 1 batches nn w)) = ac_targ nn"
proof -
  let ?nn = "fst (update X rho data nn w)"
  have t: "ac_targ ?nn = polyak_avg rho (ac ?nn) (ac_targ nn)"
    by (rule update_ac_targ)
  have "length (ac_targ ?nn) = length (ac_targ nn)"
    by (simp add: t polyak_avg_length)
  moreover have "ac_targ ?nn ! i = rho * ac_targ nn ! i + (1 - rho) * ac ?nn ! i"
    if "i < length (ac_targ nn)" "i < length (ac ?nn)" for i
    using that by (simp add: t polyak_avg_nth)
  moreover have "ac_targ ?nn = ac ?nn" if "rho = 0" "length (ac ?nn) = length (ac_targ nn)"
    using that t polyak_avg_zero[of "ac ?nn" "ac_targ nn"] by simp
  ultimately show ?thesis
    using update_ac[of X rho data nn w] update_all_one[of X batches nn w] by blast
qed

theorem polyak_target_update_witness:
  "ac (fst (update demo_world (1 / 2) demo_batch demo_nets 0)) = [2, 2] \<and>
   (1::nat) < length (ac_targ demo_nets) \<and>
   1 < length (ac (fst (update demo_world (1 / 2) demo_batch demo_nets 0))) \<and>
   ac_targ (fst (update demo_world (1 / 2) demo_batch demo_nets 0)) ! 1 =
     1 / 2 * ac_targ demo_nets ! 1 + (1 - 1 / 2) * 2 \<and>
   length (ac (fst (update demo_world 0 demo_batch demo_nets 0))) = length (ac_targ demo_nets) \<and>
   ac_targ (fst (update demo_world 0 demo_batch demo_nets 0)) = [2, 2] \<and>
   ac_targ (fst (update_all demo_world 1 [demo_batch, demo_batch] demo_nets 0)) = [4, 8]"
proof -
  have a: "ac (fst (update demo_world rho demo_batch demo_nets 0)) = [2, 2]" for rho
    by (simp add: update_def demo_world_def demo_nets_def Let_def)
  have t: "ac_targ demo_nets = [4, 8]"
    by (simp add: demo_nets_def)
  let ?h = "fst (update demo_world (1 / 2) demo_batch demo_nets 0)"
  let ?z = "fst (update demo_world 0 demo_batch demo_nets 0)"
  note half = polyak_target_update[of demo_world "1 / 2" demo_batch demo_nets 0
        "[demo_batch, demo_batch]"]
  note zero = polyak_target_update[of demo_world 0 demo_batch demo_nets 0 "[]"]
  have l: "(1::nat) < length (ac_targ demo_nets)" "1 < length (ac ?h)"
    "length (ac ?z) = length (ac_targ demo_nets)"
    by (simp_all add: a t)
  have "ac_targ ?h ! 1 = 1 / 2 * ac_targ demo_nets ! 1 + (1 - 1 / 2) * ac ?h ! 1"
    using half l(1,2) by blast
  then have 1: "ac_targ ?h ! 1 = 1 / 2 * ac_targ demo_nets ! 1 + (1 - 1 / 2) * 2"
    by (simp add: a)
  have "ac_targ ?z = ac ?z"
    using zero l(3) by blast
  then have 2: "ac_targ ?z = [2, 2]" by (simp add: a)
  have 3: "ac_targ (fst (update_all demo_world 1 [demo_batch, demo_batch] demo_nets 0)) = [4, 8]"
    using half t by simp
  show ?thesis using a l 1 2 3 by simp
qed

subsection \<open>get_action\<close>

lemma clip_range: "0 \<le> L \<Longrightarrow> 0 \<le> clip x 0 L \<and> clip x 0 L \<le> L"
  by (simp add: clip_def)

lemma clip_upper: "clip x a_min a_max \<le> a_max"
  by (simp add: clip_def)

lemma get_action_nth:
  "i < act_dim \<Longrightarrow>
     fst (get_action X act_dim L theta ob noise_scale w) ! i =
       clip (ac_act X theta ob i + noise_scale * fst (randn X w) i) 0 L"
  by (simp add: get_action_def Let_def split_beta)

text \<open>Claim C6. With \<open>act_limit \<ge> 0\<close>, for every observation, every noise draw and every
  \<open>noise_scale\<close>, the action of \<open>get_action\<close> has \<open>act_dim\<close> components, each in
  \<open>[0, act_limit]\<close>.\<close>

theorem get_action_clipped:
  assumes "0 \<le> act_limit"
  shows "length (fst (get_action X act_dim act_limit theta ob noise_scale w)) = act_dim \<and>
     (\<forall>x\<in>set (fst (get_action X act_dim act_limit theta ob noise_scale w)).
        0 \<le> x \<and> x \<le> act_limit)"
  using assms by (auto simp: get_action_def Let_def split_beta clip_def)

theorem get_action_clipped_witness:
  "(0::real) \<le> 2 \<and> fst (get_action demo_world 2 2 [] [0] 1 0) = [2, 2] \<and>
   fst (get_action demo_world 2 2 [] [0] (- 1) 0) = [0, 0] \<and>
   length (fst (get_action demo_world 2 2 [] [0] 1 0)) = 2 \<and>
   0 \<le> fst (get_action demo_world 2 2 [] [0] 1 0) ! 1 \<and>
   fst (get_action demo_world 2 2 [] [0] 1 0) ! 1 \<le> 2"
proof -
  have v: "fst (get_action demo_world 2 2 [] [0] 1 0) = [2, 2]"
    "fst (get_action demo_world 2 2 [] [0] (- 1) 0) = [0, 0]"
    by (simp_all add: get_action_def demo_world_def clip_def Let_def upt_rec numeral_2_eq_2)
  have m: "fst (get_action demo_world 2 2 [] [0] 1 0) ! 1
      \<in> set (fst (get_action demo_world 2 2 [] [0] 1 0))"
    by (simp add: v)
  have "length (fst (get_action demo_world 2 2 [] [0] 1 0)) = 2 \<and>
      0 \<le> fst (get_action demo_world 2 2 [] [0] 1 0) ! 1 \<and>
      fst (get_action demo_world 2 2 [] [0] 1 0) ! 1 \<le> 2"
    using get_action_clipped[of 2 demo_world 2 "[]" "[0]" 1 0] m by simp
  then show ?thesis using v by simp
qed

text \<open>Claim C10. \<open>act_limit\<close> is the first component of the action space's \<open>high\<close>
  vector, and \<open>get_action\<close> clips every component with that one scalar. When all
  components of \<open>high\<close> equal the first, every component of the action is within its
  own bound. When they differ it need not be: with the bounds 2 and 1 the second
  component of an action is 2.\<close>

theorem act_limit_first_component:
  "(act_limit_of high = Inr L \<longrightarrow> high \<noteq> [] \<and> L = high ! 0) \<and>
   (\<forall>i<act_dim. fst (get_action X act_dim L theta ob noise_scale w) ! i =
       clip (ac_act X theta ob i + noise_scale * fst (randn X w) i) 0 L) \<and>
   (act_limit_of high = Inr L \<and> (\<forall>i<length high. high ! i = high ! 0) \<longrightarrow>
      (\<forall>i<length high.
         fst (get_action X (length high) L theta ob noise_scale w) ! i \<le> high ! i)) \<and>
   act_limit_of (action_high demo_world) = Inr 2 \<and>
   action_high demo_world ! 1 = 1 \<and>
   fst (get_action demo_world (length (action_high demo_world)) 2 [] [0] 1 0) ! 1 = 2"
proof -
  have first: "high \<noteq> [] \<and> L = high ! 0" if "act_limit_of high = Inr L"
    using that by (cases high) (simp_all add: act_limit_of_def)
  have shared: "fst (get_action X (length high) L theta ob noise_scale w) ! i \<le> high ! i"
    if "act_limit_of high = Inr L" and "\<forall>i<length high. high ! i = high ! 0"
      and "i < length high" for i
  proof -
    have "fst (get_action X (length high) L theta ob noise_scale w) ! i \<le> L"
      using that(3) by (simp add: get_action_nth clip_upper)
    moreover have "high ! i = high ! 0" using that(2,3) by blast
    moreover have "L = high ! 0" using first[OF that(1)] by blast
    ultimately show ?thesis by (simp only:)
  qed
  have demo: "act_limit_of (action_high demo_world) = Inr 2"
    "action_high demo_world ! 1 = 1"
    "fst (get_action demo_world (length (action_high demo_world)) 2 [] [0] 1 0) ! 1 = 2"
    by (simp_all add: act_limit_of_def demo_world_def get_action_nth clip_def)
  have each: "\<forall>i<act_dim. fst (get_action X act_dim L theta ob noise_scale w) ! i =
       clip (ac_act X theta ob i + noise_scale * fst (randn X w) i) 0 L"
    by (simp add: get_action_nth)
  show ?thesis
    using first shared demo each by blast
qed

theorem act_limit_first_component_witness:
  "act_limit_of [3, 3] = Inr 3 \<and> [3, 3] ! 0 = (3::real) \<and> [3, 3] ! 1 = [3, 3 :: real] ! 0 \<and>
   (1::nat) < length [3, 3 :: real] \<and>
   fst (get_action demo_world (length [3, 3 :: real]) 3 [] [0] 1 0) ! 1 = 3 \<and>
   fst (get_action demo_world (length [3, 3 :: real]) 3 [] [0] 1 0) ! 1 \<le> [3, 3] ! 1"
proof -
  have a: "act_limit_of [3, 3] = Inr 3" by (simp add: act_limit_of_def)
  have s: "\<forall>i<length [3, 3 :: real]. [3, 3 :: real] ! i = [3, 3] ! 0"
    by (simp add: nth_Cons' less_Suc_eq)
  have l: "(1::nat) < length [3, 3 :: real]" by simp
  have v: "fst (get_action demo_world (length [3, 3 :: real]) 3 [] [0] 1 0) ! 1 = 3"
    by (simp add: get_action_nth demo_world_def clip_def)
  have "fst (get_action demo_world (length [3, 3 :: real]) 3 [] [0] 1 0) ! 1 \<le> [3, 3] ! 1"
    using act_limit_first_component[of "[3, 3]" 3 2 demo_world "[]" "[0]" 1 0] a s l
    by blast
  then show ?thesis using a l v by simp
qed

subsection \<open>One step of the training loop\<close>

lemma interact_fields:
  assumes "interact X hp act_dim act_limit t s = Inr s1"
  shows "env_steps s1 = env_steps s + 1 \<and> update_log s1 = update_log s \<and>
         avg_log s1 = avg_log s \<and> saved s1 = saved s \<and> prev_best s1 = prev_best s \<and>
         networks s1 = networks s \<and> files s1 = files s"
  using assms
  by (auto simp: interact_def Let_def split_beta ebind_eq_Inr split: if_splits)

lemma interact_buffer:
  assumes "interact X hp act_dim act_limit t s = Inr s1"
  shows "store (replay_buffer s) (o' s) (fst (select_action X hp act_dim act_limit t s))
           (fst (snd (env_response X hp act_dim act_limit t s)))
           (fst (env_response X hp act_dim act_limit t s))
           (stored_done hp (ep_len s + 1) (snd (snd (env_response X hp act_dim act_limit t s))))
         = Inr (replay_buffer s1)"
  using assms
  by (auto simp: interact_def env_response_def Let_def split_beta ebind_eq_Inr split: if_splits)

lemma interact_returns:
  assumes "rb_inv (replay_buffer s)"
  shows "\<exists>s1. interact X hp act_dim act_limit t s = Inr s1"
  unfolding interact_def Let_def split_beta store_ok[OF assms]
  by (simp split: if_splits)

lemma interact_store_counts:
  assumes inv: "rb_inv (replay_buffer s)"
    and run: "interact X hp act_dim act_limit t s = Inr s1"
  shows "rb_inv (replay_buffer s1) \<and> max_size (replay_buffer s1) = max_size (replay_buffer s) \<and>
     ptr (replay_buffer s1) = (ptr (replay_buffer s) + 1) mod max_size (replay_buffer s) \<and>
     size' (replay_buffer s1) = min (size' (replay_buffer s) + 1) (max_size (replay_buffer s))"
proof -
  note st = interact_buffer[OF run]
  have "Inr (replay_buffer s1) = store (replay_buffer s) (o' s)
           (fst (select_action X hp act_dim act_limit t s))
           (fst (snd (env_response X hp act_dim act_limit t s)))
           (fst (env_response X hp act_dim act_limit t s))
           (stored_done hp (ep_len s + 1) (snd (snd (env_response X hp act_dim act_limit t s))))"
    using st by simp
  then have "ptr (replay_buffer s1) = (ptr (replay_buffer s) + 1) mod max_size (replay_buffer s) \<and>
     size' (replay_buffer s1) = min (size' (replay_buffer s) + 1) (max_size (replay_buffer s))"
    unfolding store_ok[OF inv] by simp
  then show ?thesis using store_inv[OF inv st] by simp
qed

lemma interact_world:
  assumes "interact X hp act_dim act_limit t s = Inr s1"
  shows "world s1 =
     (if stored_done hp (ep_len s + 1) (snd (snd (env_response X hp act_dim act_limit t s))) \<or>
         ep_len s + 1 = max_ep_len hp
      then snd (env_reset X
             (logger_store X ''episode_length'' [real (ep_len s + 1)]
               (logger_store X ''episode_return''
                  [ep_ret s + fst (snd (env_response X hp act_dim act_limit t s))]
                  (env_world X hp act_dim act_limit t s))))
      else env_world X hp act_dim act_limit t s)"
proof (cases "stored_done hp (ep_len s + 1) (snd (snd (env_response X hp act_dim act_limit t s))) \<or>
         ep_len s + 1 = max_ep_len hp")
  case True
  then have "stored_done hp (Suc (ep_len s))
        (snd (snd (fst (env_step X (fst (select_action X hp act_dim act_limit t s))
                                   (snd (select_action X hp act_dim act_limit t s)))))) \<or>
      Suc (ep_len s) = max_ep_len hp"
    by (simp add: env_response_def split_beta)
  then show ?thesis
    using assms True
    by (auto simp: interact_def env_world_def env_response_def Let_def split_beta ebind_eq_Inr)
next
  case False
  then have "\<not> (stored_done hp (Suc (ep_len s))
        (snd (snd (fst (env_step X (fst (select_action X hp act_dim act_limit t s))
                                   (snd (select_action X hp act_dim act_limit t s)))))) \<or>
      Suc (ep_len s) = max_ep_len hp)"
    by (simp add: env_response_def split_beta)
  then show ?thesis
    using assms False
    by (auto simp: interact_def env_world_def env_response_def Let_def split_beta ebind_eq_Inr)
qed

text \<open>Claim C7, at the step the claim and the code disagree on. The claim has random
  actions in the steps \<open>t < start_steps\<close> only; the test of line 320 is
  \<open>t > start_steps\<close>, so the step \<open>t = start_steps\<close> still samples the action space,
  and the policy acts from \<open>t = start_steps + 1\<close> on.\<close>

theorem random_action_at_start_steps:
  "select_action X hp act_dim act_limit (start_steps hp) s = action_space_sample X (world s) \<and>
   select_action X hp act_dim act_limit (start_steps hp + 1) s =
     get_action X act_dim act_limit (ac (networks s)) (o' s) (act_noise hp) (world s)"
  by (simp add: select_action_def)

text \<open>Claim C2, as the code has it. A step of the loop stores, at the buffer's \<open>ptr\<close>, the
  flag \<open>False\<close> whenever the episode length after the step equals \<open>max_ep_len\<close>,
  whether or not the environment signalled termination in that step, and the
  environment's flag in every other step.\<close>

theorem stored_done_at_horizon:
  assumes "rb_inv (replay_buffer s)"
  shows "\<exists>s1. interact X hp act_dim act_limit t s = Inr s1 \<and>
     done_buf (replay_buffer s1) ! ptr (replay_buffer s) =
       of_bool (stored_done hp (ep_len s + 1)
                  (snd (snd (env_response X hp act_dim act_limit t s)))) \<and>
     stored_done hp (ep_len s + 1) (snd (snd (env_response X hp act_dim act_limit t s))) =
       (if ep_len s + 1 = max_ep_len hp then False
        else snd (snd (env_response X hp act_dim act_limit t s)))"
proof -
  obtain s1 where 1: "interact X hp act_dim act_limit t s = Inr s1"
    using interact_returns[OF assms] by blast
  have p: "ptr (replay_buffer s) < length (done_buf (replay_buffer s))"
    using assms by (simp add: rb_inv_def)
  have "Inr (replay_buffer s1) = store (replay_buffer s) (o' s)
           (fst (select_action X hp act_dim act_limit t s))
           (fst (snd (env_response X hp act_dim act_limit t s)))
           (fst (env_response X hp act_dim act_limit t s))
           (stored_done hp (ep_len s + 1) (snd (snd (env_response X hp act_dim act_limit t s))))"
    using interact_buffer[OF 1] by simp
  then have "done_buf (replay_buffer s1) =
      (done_buf (replay_buffer s))[ptr (replay_buffer s) :=
         of_bool (stored_done hp (ep_len s + 1)
                  (snd (snd (env_response X hp act_dim act_limit t s))))]"
    unfolding store_ok[OF assms] by simp
  then have "done_buf (replay_buffer s1) ! ptr (replay_buffer s) =
       of_bool (stored_done hp (ep_len s + 1)
                  (snd (snd (env_response X hp act_dim act_limit t s))))"
    using p by simp
  then show ?thesis using 1 by (simp add: stored_done_def)
qed

text \<open>The claim says the stored flag is \<open>True\<close> when the environment's termination
  coincides with \<open>ep_len = max_ep_len\<close>. In the third step of an episode of the small
  run (\<open>max_ep_len = 3\<close>) the environment signals termination and 0 is stored.\<close>

theorem stored_done_counterexample:
  "snd (snd (env_response demo_world demo_hyper 2 2 2 demo_state)) \<and>
   ep_len demo_state + 1 = max_ep_len demo_hyper \<and>
   (case interact demo_world demo_hyper 2 2 2 demo_state of
      Inl e \<Rightarrow> False
    | Inr s1 \<Rightarrow> done_buf (replay_buffer s1) ! ptr (replay_buffer demo_state) = 0)"
  by (simp add: env_response_def interact_def select_action_def get_action_def stored_done_def
        store_def setitem_def ReplayBuffer_init_def clip_def
        demo_world_def demo_hyper_def demo_state_def demo_nets_def Let_def)

theorem stored_done_at_horizon_witness:
  "rb_inv (replay_buffer demo_state) \<and>
   (\<exists>s1. interact demo_world demo_hyper 2 2 2 demo_state = Inr s1 \<and>
      done_buf (replay_buffer s1) ! ptr (replay_buffer demo_state) = 0)"
proof -
  have inv: "rb_inv (replay_buffer demo_state)"
    by (simp add: demo_state_def init_inv)
  have "ep_len demo_state + 1 = max_ep_len demo_hyper"
    by (simp add: demo_state_def demo_hyper_def)
  then show ?thesis
    using inv stored_done_at_horizon[OF inv, of demo_world demo_hyper 2 2 2] by auto
qed

subsection \<open>The schedule of the training loop\<close>

lemma update_burst_fields:
  "update_burst X hp t n s = Inr s' \<Longrightarrow>
     env_steps s' = env_steps s \<and> update_log s' = update_log s @ replicate n t \<and>
     avg_log s' = avg_log s \<and> saved s' = saved s \<and> prev_best s' = prev_best s \<and>
     replay_buffer s' = replay_buffer s \<and> files s' = files s"
proof (induction n arbitrary: s)
  case 0
  then show ?case by simp
next
  case (Suc n)
  from Suc.prems obtain data where
    rest: "update_burst X hp t n
       (s\<lparr>world := snd (update X (polyak hp) data (networks s) (snd (random_raw X (world s)))),
          networks := fst (update X (polyak hp) data (networks s) (snd (random_raw X (world s)))),
          update_log := update_log s @ [t]\<rparr>) = Inr s'"
    by (auto simp: Let_def split_beta ebind_eq_Inr)
  show ?case using Suc.IH[OF rest] by (simp add: replicate_app_Cons_same)
qed

lemma update_burst_returns:
  assumes "rb_inv (replay_buffer s)" and "0 < size' (replay_buffer s)"
  shows "\<exists>s'. update_burst X hp t n s = Inr s'"
  using assms
proof (induction n arbitrary: s)
  case 0
  show ?case by simp
next
  case (Suc n)
  show ?case
    unfolding update_burst.simps Let_def split_beta sample_batch_ok[OF Suc.prems] ebind_Inr
    by (rule Suc.IH) (simp_all add: Suc.prems)
qed

lemma sample_batch_rows:
  assumes "rb_inv b" and "0 < size' b"
  shows "sample_batch raw b n = Inr (rows_at b (map (\<lambda>j. int (raw j mod size' b)) [0..<n]))"
  unfolding sample_batch_ok[OF assms] by (simp add: rows_at_def)

lemma update_burst_real:
  assumes "rb_inv (replay_buffer s)" and "0 < size' (replay_buffer s)"
  shows "update_burst X hp t n s = Inr s' \<Longrightarrow>
     (networks s', world s') = (update_round X hp (replay_buffer s) ^^ n) (networks s, world s)"
  using assms
proof (induction n arbitrary: s)
  case 0
  then show ?case by simp
next
  case (Suc n)
  let ?r = "update_round X hp (replay_buffer s) (networks s, world s)"
  let ?s = "s\<lparr>world := snd ?r, networks := fst ?r, update_log := update_log s @ [t]\<rparr>"
  have rest: "update_burst X hp t n ?s = Inr s'"
    using Suc.prems(1)
    by (simp add: sample_batch_rows[OF Suc.prems(2,3)] update_round_def Let_def split_beta)
  have "(networks s', world s') =
      (update_round X hp (replay_buffer ?s) ^^ n) (networks ?s, world ?s)"
    by (rule Suc.IH[OF rest]) (simp_all add: Suc.prems)
  then show ?case by (simp add: funpow_swap1)
qed

lemma update_handling_fields:
  assumes "update_handling X hp t s = Inr s'"
  shows "env_steps s' = env_steps s \<and> update_log s' = update_log s @ burst_of hp t \<and>
     avg_log s' = avg_log s \<and> saved s' = saved s \<and> prev_best s' = prev_best s \<and>
     replay_buffer s' = replay_buffer s \<and> files s' = files s"
proof (cases "update_after hp \<le> t \<and> t mod update_every hp = 0")
  case True
  then have "update_burst X hp t (update_every hp) s = Inr s'"
    using assms by (simp add: update_handling_def split: if_splits)
  from update_burst_fields[OF this] show ?thesis
    using True by (simp add: burst_of_def)
next
  case False
  then have "s' = s"
    using assms by (auto simp: update_handling_def split: if_splits)
  then show ?thesis using False by (auto simp: burst_of_def)
qed

lemma update_handling_returns:
  assumes "rb_inv (replay_buffer s)" and "0 < size' (replay_buffer s)" and "0 < update_every hp"
  shows "\<exists>s'. update_handling X hp t s = Inr s'"
  using update_burst_returns[OF assms(1,2)] assms(3)
  by (simp add: update_handling_def)

lemma update_handling_real:
  assumes "rb_inv (replay_buffer s)" and "0 < size' (replay_buffer s)"
    and "update_handling X hp t s = Inr s'"
  shows "(networks s', world s') =
     (update_round X hp (replay_buffer s) ^^
        (if update_after hp \<le> t \<and> t mod update_every hp = 0 then update_every hp else 0))
       (networks s, world s)"
proof (cases "update_after hp \<le> t \<and> t mod update_every hp = 0")
  case True
  then have "update_burst X hp t (update_every hp) s = Inr s'"
    using assms(3) by (simp add: update_handling_def split: if_splits)
  from update_burst_real[OF assms(1,2) this] show ?thesis using True by simp
next
  case False
  then have "s' = s"
    using assms(3) by (auto simp: update_handling_def split: if_splits)
  then show ?thesis using False by auto
qed

lemma epoch_handling_fields:
  assumes "epoch_handling X hp output_dir act_dim act_limit t s = Inr s'"
  shows "env_steps s' = env_steps s \<and> update_log s' = update_log s \<and>
     replay_buffer s' = replay_buffer s \<and>
     (if (t + 1) mod steps_per_epoch hp = 0
      then \<exists>avg. avg_log s' = avg_log s @ [avg] \<and>
             saved s' = saved s @ best_step (prev_best s) ((t + 1) div steps_per_epoch hp) avg \<and>
             prev_best s' = max_best (prev_best s) avg
      else avg_log s' = avg_log s \<and> saved s' = saved s \<and> prev_best s' = prev_best s)"
  using assms
  by (auto simp: epoch_handling_def save_model_def best_step_def Let_def split: if_splits)

lemma epoch_handling_returns:
  assumes "0 < steps_per_epoch hp" and "0 < save_freq hp"
  shows "\<exists>s'. epoch_handling X hp output_dir act_dim act_limit t s = Inr s'"
  using assms by (simp add: epoch_handling_def Let_def)

lemma epoch_handling_networks:
  "epoch_handling X hp output_dir act_dim act_limit t s = Inr s' \<Longrightarrow> networks s' = networks s"
  by (auto simp: epoch_handling_def save_model_def Let_def split: if_splits)

lemma epoch_handling_step:
  assumes "0 < steps_per_epoch hp" and "0 < save_freq hp"
    and "(t + 1) mod steps_per_epoch hp = 0"
  shows "\<exists>s1. epoch_handling X hp output_dir act_dim act_limit t s = Inr s1 \<and>
     avg_log s1 = avg_log s @ [epoch_avg X hp act_dim act_limit t s] \<and>
     prev_best s1 = max_best (prev_best s) (epoch_avg X hp act_dim act_limit t s) \<and>
     files s1 =
       (if exceeds_best (epoch_avg X hp act_dim act_limit t s) (prev_best s)
        then (files s)(savepath_of X output_dir ((t + 1) div steps_per_epoch hp)
                         (epoch_avg X hp act_dim act_limit t s) \<mapsto>
               \<lparr>ckpt_epoch = (t + 1) div steps_per_epoch hp,
                model_state_dict = ac (networks s),
                pi_optimizer_state_dict = pi_optimizer (networks s),
                q_optimizer_state_dict = q_optimizer (networks s)\<rparr>)
        else files s) \<and>
     saved s1 =
       saved s @ (if exceeds_best (epoch_avg X hp act_dim act_limit t s) (prev_best s)
                  then [((t + 1) div steps_per_epoch hp, epoch_avg X hp act_dim act_limit t s)]
                  else [])"
  using assms
  by (simp add: epoch_handling_def save_model_def epoch_avg_def savepath_of_def Let_def)

lemma loop_body_fields:
  assumes "loop_body X hp output_dir act_dim act_limit t s = Inr s'"
  shows "env_steps s' = env_steps s + 1 \<and> update_log s' = update_log s @ burst_of hp t \<and>
     (if (t + 1) mod steps_per_epoch hp = 0
      then \<exists>avg. avg_log s' = avg_log s @ [avg] \<and>
             saved s' = saved s @ best_step (prev_best s) ((t + 1) div steps_per_epoch hp) avg \<and>
             prev_best s' = max_best (prev_best s) avg
      else avg_log s' = avg_log s \<and> saved s' = saved s \<and> prev_best s' = prev_best s)"
proof -
  from assms obtain s1 s2 where
    1: "interact X hp act_dim act_limit t s = Inr s1" and
    2: "update_handling X hp t s1 = Inr s2" and
    3: "epoch_handling X hp output_dir act_dim act_limit t s2 = Inr s'"
    by (auto simp: loop_body_def ebind_eq_Inr)
  show ?thesis
    using interact_fields[OF 1] update_handling_fields[OF 2] epoch_handling_fields[OF 3]
    by (simp split: if_splits)
qed

lemma loop_body_returns:
  assumes inv: "rb_inv (replay_buffer s)" and ue: "0 < update_every hp"
    and spe: "0 < steps_per_epoch hp" and sf: "0 < save_freq hp"
  shows "\<exists>s'. loop_body X hp output_dir act_dim act_limit t s = Inr s' \<and>
     rb_inv (replay_buffer s')"
proof -
  obtain s1 where 1: "interact X hp act_dim act_limit t s = Inr s1"
    using interact_returns[OF inv] by blast
  have st: "store (replay_buffer s) (o' s) (fst (select_action X hp act_dim act_limit t s))
           (fst (snd (env_response X hp act_dim act_limit t s)))
           (fst (env_response X hp act_dim act_limit t s))
           (stored_done hp (ep_len s + 1) (snd (snd (env_response X hp act_dim act_limit t s))))
         = Inr (replay_buffer s1)"
    by (rule interact_buffer[OF 1])
  have inv1: "rb_inv (replay_buffer s1)" and pos: "0 < size' (replay_buffer s1)"
    using store_inv[OF inv st] store_size_pos[OF inv st] by simp_all
  obtain s2 where 2: "update_handling X hp t s1 = Inr s2"
    using update_handling_returns[OF inv1 pos ue] by blast
  obtain s3 where 3: "epoch_handling X hp output_dir act_dim act_limit t s2 = Inr s3"
    using epoch_handling_returns[OF spe sf] by blast
  have "replay_buffer s3 = replay_buffer s1"
    using update_handling_fields[OF 2] epoch_handling_fields[OF 3] by simp
  then show ?thesis
    using 1 2 3 inv1 by (simp add: loop_body_def)
qed

lemma loop_body_steps:
  assumes inv: "rb_inv (replay_buffer s)" and ue: "0 < update_every hp"
    and spe: "0 < steps_per_epoch hp" and sf: "0 < save_freq hp"
  shows "\<exists>s1 s2 s3.
     interact X hp act_dim act_limit t s = Inr s1 \<and>
     update_handling X hp t s1 = Inr s2 \<and>
     epoch_handling X hp output_dir act_dim act_limit t s2 = Inr s3 \<and>
     loop_body X hp output_dir act_dim act_limit t s = Inr s3 \<and>
     rb_inv (replay_buffer s1) \<and> 0 < size' (replay_buffer s1)"
proof -
  obtain s1 where 1: "interact X hp act_dim act_limit t s = Inr s1"
    using interact_returns[OF inv] by blast
  have st: "store (replay_buffer s) (o' s) (fst (select_action X hp act_dim act_limit t s))
           (fst (snd (env_response X hp act_dim act_limit t s)))
           (fst (env_response X hp act_dim act_limit t s))
           (stored_done hp (ep_len s + 1) (snd (snd (env_response X hp act_dim act_limit t s))))
         = Inr (replay_buffer s1)"
    by (rule interact_buffer[OF 1])
  have inv1: "rb_inv (replay_buffer s1)" and pos: "0 < size' (replay_buffer s1)"
    using store_inv[OF inv st] store_size_pos[OF inv st] by simp_all
  obtain s2 where 2: "update_handling X hp t s1 = Inr s2"
    using update_handling_returns[OF inv1 pos ue] by blast
  obtain s3 where 3: "epoch_handling X hp output_dir act_dim act_limit t s2 = Inr s3"
    using epoch_handling_returns[OF spe sf] by blast
  have "loop_body X hp output_dir act_dim act_limit t s = Inr s3"
    using 1 2 3 by (simp add: loop_body_def)
  then show ?thesis using 1 2 3 inv1 pos by blast
qed

lemma loop_body_buffer:
  assumes inv: "rb_inv (replay_buffer s)"
    and run: "loop_body X hp output_dir act_dim act_limit t s = Inr s'"
  shows "rb_inv (replay_buffer s') \<and> max_size (replay_buffer s') = max_size (replay_buffer s) \<and>
     ptr (replay_buffer s') = (ptr (replay_buffer s) + 1) mod max_size (replay_buffer s) \<and>
     size' (replay_buffer s') = min (size' (replay_buffer s) + 1) (max_size (replay_buffer s))"
proof -
  from run obtain s1 s2 where
    1: "interact X hp act_dim act_limit t s = Inr s1" and
    2: "update_handling X hp t s1 = Inr s2" and
    3: "epoch_handling X hp output_dir act_dim act_limit t s2 = Inr s'"
    by (auto simp: loop_body_def ebind_eq_Inr)
  have "replay_buffer s' = replay_buffer s1"
    using update_handling_fields[OF 2] epoch_handling_fields[OF 3] by simp
  then show ?thesis using interact_store_counts[OF inv 1] by simp
qed

lemma main_loop_append:
  "main_loop X hp output_dir act_dim act_limit (ts @ us) s =
     ebind (main_loop X hp output_dir act_dim act_limit ts s)
       (main_loop X hp output_dir act_dim act_limit us)"
proof (induction ts arbitrary: s)
  case Nil
  show ?case by simp
next
  case (Cons t ts)
  have "main_loop X hp output_dir act_dim act_limit (ts @ us) =
      (\<lambda>x. ebind (main_loop X hp output_dir act_dim act_limit ts x)
         (main_loop X hp output_dir act_dim act_limit us))"
    by (rule ext) (rule Cons.IH)
  then show ?case by (simp add: ebind_assoc)
qed

lemma main_loop_returns:
  assumes ue: "0 < update_every hp" and spe: "0 < steps_per_epoch hp" and sf: "0 < save_freq hp"
  shows "rb_inv (replay_buffer s) \<Longrightarrow>
     \<exists>s'. main_loop X hp output_dir act_dim act_limit ts s = Inr s'"
proof (induction ts arbitrary: s)
  case Nil
  show ?case by simp
next
  case (Cons t ts)
  obtain s1 where 1: "loop_body X hp output_dir act_dim act_limit t s = Inr s1"
    and inv1: "rb_inv (replay_buffer s1)"
    using loop_body_returns[OF Cons.prems ue spe sf] by blast
  show ?case using Cons.IH[OF inv1] by (simp add: 1)
qed

lemma main_loop_counts:
  "main_loop X hp output_dir act_dim act_limit ts s = Inr s' \<Longrightarrow>
     env_steps s' = env_steps s + length ts \<and>
     update_log s' = update_log s @ concat (map (burst_of hp) ts)"
proof (induction ts arbitrary: s)
  case Nil
  then show ?case by simp
next
  case (Cons t ts)
  from Cons.prems obtain s1 where 1: "loop_body X hp output_dir act_dim act_limit t s = Inr s1"
    and 2: "main_loop X hp output_dir act_dim act_limit ts s1 = Inr s'"
    by (auto simp: ebind_eq_Inr)
  show ?case using loop_body_fields[OF 1] Cons.IH[OF 2] by simp
qed

lemma main_loop_buffer:
  "main_loop X hp output_dir act_dim act_limit ts s = Inr s' \<Longrightarrow> rb_inv (replay_buffer s) \<Longrightarrow>
     rb_inv (replay_buffer s') \<and> max_size (replay_buffer s') = max_size (replay_buffer s) \<and>
     ptr (replay_buffer s') = (ptr (replay_buffer s) + length ts) mod max_size (replay_buffer s) \<and>
     size' (replay_buffer s') = min (size' (replay_buffer s) + length ts) (max_size (replay_buffer s))"
proof (induction ts arbitrary: s)
  case Nil
  then have "s' = s" by simp
  moreover have "ptr (replay_buffer s) < max_size (replay_buffer s)"
    "size' (replay_buffer s) \<le> max_size (replay_buffer s)"
    using Nil.prems(2) by (simp_all add: rb_inv_def)
  ultimately show ?case using Nil.prems(2) by simp
next
  case (Cons t ts)
  from Cons.prems(1) obtain s1 where
    1: "loop_body X hp output_dir act_dim act_limit t s = Inr s1" and
    2: "main_loop X hp output_dir act_dim act_limit ts s1 = Inr s'"
    by (auto simp: ebind_eq_Inr)
  note b = loop_body_buffer[OF Cons.prems(2) 1]
  from b have inv1: "rb_inv (replay_buffer s1)" by simp
  note ih = Cons.IH[OF 2 inv1]
  have p: "((ptr (replay_buffer s) + 1) mod max_size (replay_buffer s) + length ts)
        mod max_size (replay_buffer s) =
      (ptr (replay_buffer s) + length (t # ts)) mod max_size (replay_buffer s)"
    by (simp add: mod_add_left_eq)
  have z: "min (min (size' (replay_buffer s) + 1) (max_size (replay_buffer s)) + length ts)
         (max_size (replay_buffer s)) =
      min (size' (replay_buffer s) + length (t # ts)) (max_size (replay_buffer s))"
    by simp
  show ?case
    using ih b p z by simp
qed

lemma split_on_nonempty: "split_on c s \<noteq> []"
  by (induction s) (simp_all split: list.splits)

lemma length_split_on: "length (split_on c s) = Suc (length (filter (\<lambda>x. x = c) s))"
proof (induction s)
  case Nil
  show ?case by simp
next
  case (Cons x xs)
  then show ?case
    using split_on_nonempty[of c xs] by (cases "split_on c xs") auto
qed

lemma exp_name_of_slash:
  "CHR ''/'' \<in> set output_dir \<Longrightarrow> \<exists>name. exp_name_of output_dir = Inr name"
proof -
  assume "CHR ''/'' \<in> set output_dir"
  then have "filter (\<lambda>x. x = CHR ''/'') output_dir \<noteq> []"
    by (auto simp: filter_empty_conv)
  then have "1 < length (split_on CHR ''/'' output_dir)"
    by (simp add: length_split_on)
  then show ?thesis by (simp add: exp_name_of_def Let_def)
qed

lemma exp_name_of_no_slash:
  "CHR ''/'' \<notin> set output_dir \<Longrightarrow> exp_name_of output_dir = Inl IndexError"
proof -
  assume "CHR ''/'' \<notin> set output_dir"
  then have "filter (\<lambda>x. x = CHR ''/'') output_dir = []"
    by (auto simp: filter_empty_conv)
  then have "length (split_on CHR ''/'' output_dir) = 1"
    by (simp add: length_split_on)
  then show ?thesis by (simp add: exp_name_of_def Let_def)
qed

lemma ddpg_no_slash:
  "CHR ''/'' \<notin> set output_dir \<Longrightarrow> ddpg X hp mode output_dir fs w = Inl IndexError"
  by (simp add: ddpg_def exp_name_of_no_slash)

lemma ddpg_train:
  assumes "CHR ''/'' \<in> set output_dir" and "action_high X \<noteq> []"
  shows "ddpg X hp ''train'' output_dir fs w =
     main_loop X hp output_dir (length (action_high X)) (hd (action_high X))
       [0..<steps_per_epoch hp * epochs hp]
       \<lparr>world = snd (env_reset X w), o' = fst (env_reset X w), ep_ret = 0, ep_len = 0,
        replay_buffer = ReplayBuffer_init (obs_dim X) (length (action_high X)) (replay_size hp),
        networks = \<lparr>ac = fst (init_nets X), ac_targ = fst (init_nets X),
                    pi_optimizer = fst (snd (init_nets X)),
                    q_optimizer = snd (snd (init_nets X))\<rparr>,
        prev_best = None, files = fs, env_steps = 0, update_log = [], avg_log = [],
        saved = []\<rparr>"
proof -
  obtain h hs where h: "action_high X = h # hs"
    using assms(2) by (cases "action_high X") simp_all
  obtain name where n: "exp_name_of output_dir = Inr name"
    using exp_name_of_slash[OF assms(1)] by blast
  show ?thesis
    by (simp add: ddpg_def n act_limit_of_def h Let_def split_beta)
qed

lemma ddpg_no_action_bound:
  "action_high X = [] \<Longrightarrow> ddpg X hp mode output_dir fs w = Inl IndexError"
proof (cases "CHR ''/'' \<in> set output_dir")
  case True
  assume "action_high X = []"
  moreover obtain name where "exp_name_of output_dir = Inr name"
    using exp_name_of_slash[OF True] by blast
  ultimately show ?thesis by (simp add: ddpg_def act_limit_of_def)
next
  case False
  then show ?thesis by (rule ddpg_no_slash)
qed

lemma ddpg_train_counts:
  assumes "CHR ''/'' \<in> set output_dir" and "action_high X \<noteq> []" and "0 < replay_size hp"
    and "0 < update_every hp" and "0 < save_freq hp"
  shows "\<exists>s. ddpg X hp ''train'' output_dir fs w = Inr s \<and>
     env_steps s = steps_per_epoch hp * epochs hp \<and>
     size' (replay_buffer s) = min (steps_per_epoch hp * epochs hp) (replay_size hp) \<and>
     ptr (replay_buffer s) = (steps_per_epoch hp * epochs hp) mod replay_size hp \<and>
     update_log s = concat (map (burst_of hp) [0..<steps_per_epoch hp * epochs hp])"
proof -
  let ?s0 = "\<lparr>world = snd (env_reset X w), o' = fst (env_reset X w), ep_ret = 0, ep_len = 0,
        replay_buffer = ReplayBuffer_init (obs_dim X) (length (action_high X)) (replay_size hp),
        networks = \<lparr>ac = fst (init_nets X), ac_targ = fst (init_nets X),
                    pi_optimizer = fst (snd (init_nets X)),
                    q_optimizer = snd (snd (init_nets X))\<rparr>,
        prev_best = None, files = fs, env_steps = 0, update_log = [], avg_log = [],
        saved = []\<rparr>"
  let ?ts = "[0..<steps_per_epoch hp * epochs hp]"
  have run: "ddpg X hp ''train'' output_dir fs w =
      main_loop X hp output_dir (length (action_high X)) (hd (action_high X)) ?ts ?s0"
    by (rule ddpg_train[OF assms(1,2)])
  have inv: "rb_inv (replay_buffer ?s0)"
    using assms(3) by (simp add: init_inv)
  have "\<exists>s. main_loop X hp output_dir (length (action_high X)) (hd (action_high X)) ?ts ?s0 = Inr s"
  proof (cases "steps_per_epoch hp = 0")
    case True
    then show ?thesis by simp
  next
    case False
    then have "0 < steps_per_epoch hp" by simp
    from main_loop_returns[OF assms(4) this assms(5) inv] show ?thesis .
  qed
  then obtain s where s: "main_loop X hp output_dir (length (action_high X)) (hd (action_high X)) ?ts ?s0 = Inr s"
    by blast
  have "size' (replay_buffer s) = min (steps_per_epoch hp * epochs hp) (replay_size hp) \<and>
     ptr (replay_buffer s) = (steps_per_epoch hp * epochs hp) mod replay_size hp"
    using main_loop_buffer[OF s inv] by (simp add: ReplayBuffer_init_def)
  then show ?thesis
    using main_loop_counts[OF s] run s by simp
qed

lemma ddpg_train_returns:
  assumes "CHR ''/'' \<in> set output_dir" and "action_high X \<noteq> []" and "0 < replay_size hp"
    and "0 < update_every hp" and "0 < save_freq hp"
  shows "\<exists>s. ddpg X hp ''train'' output_dir fs w = Inr s"
  using ddpg_train_counts[OF assms] by blast

lemma schedule_demo: "concat (map (\<lambda>t. if update_after demo_hyper \<le> t \<and> t mod update_every demo_hyper = 0
                         then replicate (update_every demo_hyper) t else [])
                 [0..<steps_per_epoch demo_hyper * epochs demo_hyper]) = [2, 2, 4, 4]"
  by code_simp

lemma update_round_demo:
  "(update_round demo_world demo_hyper rb ^^ update_every demo_hyper) (demo_nets, w) =
     (\<lparr>ac = [4, 4], ac_targ = [7 / 2, 9 / 2], pi_optimizer = [], q_optimizer = []\<rparr>, w)"
  by (simp add: update_round_def update_def demo_world_def demo_hyper_def
        demo_nets_def Let_def numeral_2_eq_2)

text \<open>Claim C8. With an output directory that has a \<open>/\<close>, a non-empty action
  space, a replay buffer of positive capacity and positive \<open>update_every\<close> and
  \<open>save_freq\<close>, training returns after exactly \<open>steps_per_epoch * epochs\<close> calls of
  \<open>env.step\<close>, each of which stored one transition in the replay buffer, and the
  calls of \<open>update\<close>, in order, are \<open>update_every\<close> consecutive calls at every
  step \<open>t\<close> with \<open>t \<ge> update_after\<close> and \<open>t mod update_every = 0\<close> and none at
  any other step. In one step of the loop, from any state with a well-formed buffer,
  \<open>env.step\<close> is called once and its transition stored; then, when the condition
  holds, \<open>update_every\<close> rounds follow, each drawing \<open>batch_size\<close> fresh indices
  below \<open>size\<close> and calling \<open>update\<close> on the rows of the buffer there, and
  otherwise networks and world stay as they are; the end of the epoch changes neither
  the networks nor the buffer.\<close>

theorem update_schedule:
  assumes "CHR ''/'' \<in> set output_dir" and "action_high X \<noteq> []" and "0 < replay_size hp"
    and "0 < update_every hp" and "0 < save_freq hp"
  shows "(\<exists>s. ddpg X hp ''train'' output_dir fs w = Inr s \<and>
       env_steps s = steps_per_epoch hp * epochs hp \<and>
       size' (replay_buffer s) = min (steps_per_epoch hp * epochs hp) (replay_size hp) \<and>
       ptr (replay_buffer s) = (steps_per_epoch hp * epochs hp) mod replay_size hp \<and>
       update_log s =
         concat (map (\<lambda>t. if update_after hp \<le> t \<and> t mod update_every hp = 0
                           then replicate (update_every hp) t else [])
                   [0..<steps_per_epoch hp * epochs hp])) \<and>
     (rb_inv (replay_buffer s0) \<and> 0 < steps_per_epoch hp \<longrightarrow>
       (\<exists>s1 s2 s3.
          interact X hp act_dim act_limit t s0 = Inr s1 \<and>
          update_handling X hp t s1 = Inr s2 \<and>
          epoch_handling X hp output_dir act_dim act_limit t s2 = Inr s3 \<and>
          loop_body X hp output_dir act_dim act_limit t s0 = Inr s3 \<and>
          store (replay_buffer s0) (o' s0) (fst (select_action X hp act_dim act_limit t s0))
            (fst (snd (env_response X hp act_dim act_limit t s0)))
            (fst (env_response X hp act_dim act_limit t s0))
            (stored_done hp (ep_len s0 + 1)
               (snd (snd (env_response X hp act_dim act_limit t s0)))) =
            Inr (replay_buffer s1) \<and>
          world s1 =
            (if stored_done hp (ep_len s0 + 1)
                  (snd (snd (env_response X hp act_dim act_limit t s0))) \<or>
                ep_len s0 + 1 = max_ep_len hp
             then snd (env_reset X
                    (logger_store X ''episode_length'' [real (ep_len s0 + 1)]
                      (logger_store X ''episode_return''
                         [ep_ret s0 + fst (snd (env_response X hp act_dim act_limit t s0))]
                         (env_world X hp act_dim act_limit t s0))))
             else env_world X hp act_dim act_limit t s0) \<and>
          env_steps s1 = env_steps s0 + 1 \<and> networks s1 = networks s0 \<and>
          (networks s2, world s2) =
            (update_round X hp (replay_buffer s1) ^^
               (if update_after hp \<le> t \<and> t mod update_every hp = 0
                then update_every hp else 0)) (networks s1, world s1) \<and>
          update_log s2 =
            update_log s0 @ (if update_after hp \<le> t \<and> t mod update_every hp = 0
                             then replicate (update_every hp) t else []) \<and>
          replay_buffer s2 = replay_buffer s1 \<and> env_steps s2 = env_steps s1 \<and>
          networks s3 = networks s2 \<and> replay_buffer s3 = replay_buffer s2 \<and>
          update_log s3 = update_log s2 \<and> env_steps s3 = env_steps s2))"
proof -
  have b: "burst_of hp = (\<lambda>t. if update_after hp \<le> t \<and> t mod update_every hp = 0
                         then replicate (update_every hp) t else [])"
    by (rule ext) (simp add: burst_of_def)
  have run: "\<exists>s. ddpg X hp ''train'' output_dir fs w = Inr s \<and>
       env_steps s = steps_per_epoch hp * epochs hp \<and>
       size' (replay_buffer s) = min (steps_per_epoch hp * epochs hp) (replay_size hp) \<and>
       ptr (replay_buffer s) = (steps_per_epoch hp * epochs hp) mod replay_size hp \<and>
       update_log s =
         concat (map (\<lambda>t. if update_after hp \<le> t \<and> t mod update_every hp = 0
                           then replicate (update_every hp) t else [])
                   [0..<steps_per_epoch hp * epochs hp])"
    using ddpg_train_counts[OF assms, of fs w] by (simp add: b)
  have step: "\<exists>s1 s2 s3.
          interact X hp act_dim act_limit t s0 = Inr s1 \<and>
          update_handling X hp t s1 = Inr s2 \<and>
          epoch_handling X hp output_dir act_dim act_limit t s2 = Inr s3 \<and>
          loop_body X hp output_dir act_dim act_limit t s0 = Inr s3 \<and>
          store (replay_buffer s0) (o' s0) (fst (select_action X hp act_dim act_limit t s0))
            (fst (snd (env_response X hp act_dim act_limit t s0)))
            (fst (env_response X hp act_dim act_limit t s0))
            (stored_done hp (ep_len s0 + 1)
               (snd (snd (env_response X hp act_dim act_limit t s0)))) =
            Inr (replay_buffer s1) \<and>
          world s1 =
            (if stored_done hp (ep_len s0 + 1)
                  (snd (snd (env_response X hp act_dim act_limit t s0))) \<or>
                ep_len s0 + 1 = max_ep_len hp
             then snd (env_reset X
                    (logger_store X ''episode_length'' [real (ep_len s0 + 1)]
                      (logger_store X ''episode_return''
                         [ep_ret s0 + fst (snd (env_response X hp act_dim act_limit t s0))]
                         (env_world X hp act_dim act_limit t s0))))
             else env_world X hp act_dim act_limit t s0) \<and>
          env_steps s1 = env_steps s0 + 1 \<and> networks s1 = networks s0 \<and>
          (networks s2, world s2) =
            (update_round X hp (replay_buffer s1) ^^
               (if update_after hp \<le> t \<and> t mod update_every hp = 0
                then update_every hp else 0)) (networks s1, world s1) \<and>
          update_log s2 =
            update_log s0 @ (if update_after hp \<le> t \<and> t mod update_every hp = 0
                             then replicate (update_every hp) t else []) \<and>
          replay_buffer s2 = replay_buffer s1 \<and> env_steps s2 = env_steps s1 \<and>
          networks s3 = networks s2 \<and> replay_buffer s3 = replay_buffer s2 \<and>
          update_log s3 = update_log s2 \<and> env_steps s3 = env_steps s2"
    if inv: "rb_inv (replay_buffer s0)" and spe: "0 < steps_per_epoch hp"
  proof -
    obtain s1 s2 s3 where
      1: "interact X hp act_dim act_limit t s0 = Inr s1" and
      2: "update_handling X hp t s1 = Inr s2" and
      3: "epoch_handling X hp output_dir act_dim act_limit t s2 = Inr s3" and
      4: "loop_body X hp output_dir act_dim act_limit t s0 = Inr s3" and
      inv1: "rb_inv (replay_buffer s1)" and pos: "0 < size' (replay_buffer s1)"
      using loop_body_steps[OF inv assms(4) spe assms(5)] by blast
    have f1: "env_steps s1 = env_steps s0 + 1" "networks s1 = networks s0"
      "update_log s1 = update_log s0"
      using interact_fields[OF 1] by simp_all
    have f2: "update_log s2 =
            update_log s0 @ (if update_after hp \<le> t \<and> t mod update_every hp = 0
                             then replicate (update_every hp) t else [])"
       "replay_buffer s2 = replay_buffer s1" "env_steps s2 = env_steps s1"
      using update_handling_fields[OF 2] f1(3) by (simp_all add: burst_of_def)
    have f3: "networks s3 = networks s2" "replay_buffer s3 = replay_buffer s2"
      "update_log s3 = update_log s2" "env_steps s3 = env_steps s2"
      using epoch_handling_fields[OF 3] epoch_handling_networks[OF 3] by simp_all
    show ?thesis
      using 1 2 3 4 interact_buffer[OF 1] interact_world[OF 1] f1(1,2)
        update_handling_real[OF inv1 pos 2] f2 f3
      by blast
  qed
  show ?thesis using run step by blast
qed

theorem update_schedule_witness:
  "CHR ''/'' \<in> set ''runs/out'' \<and> action_high demo_world \<noteq> [] \<and>
   0 < replay_size demo_hyper \<and> 0 < update_every demo_hyper \<and> 0 < save_freq demo_hyper \<and>
   (\<exists>s. ddpg demo_world demo_hyper ''train'' ''runs/out'' Map.empty 0 = Inr s \<and>
      env_steps s = 5 \<and> update_log s = [2, 2, 4, 4] \<and>
      size' (replay_buffer s) = 2 \<and> ptr (replay_buffer s) = 1) \<and>
   rb_inv (replay_buffer demo_state) \<and> 0 < steps_per_epoch demo_hyper \<and>
   (\<exists>s3. loop_body demo_world demo_hyper ''runs/out'' 2 2 2 demo_state = Inr s3 \<and>
      networks s3 = \<lparr>ac = [4, 4], ac_targ = [7 / 2, 9 / 2], pi_optimizer = [], q_optimizer = []\<rparr> \<and>
      update_log s3 = [2, 2] \<and> env_steps s3 = 3)"
proof -
  have sl: "CHR ''/'' \<in> set ''runs/out''" by simp
  have h: "action_high demo_world \<noteq> []" "0 < replay_size demo_hyper"
    "0 < update_every demo_hyper" "0 < save_freq demo_hyper"
    by (simp_all add: demo_world_def demo_hyper_def)
  have inv: "rb_inv (replay_buffer demo_state)"
    by (simp add: demo_state_def init_inv)
  have spe: "0 < steps_per_epoch demo_hyper"
    by (simp add: demo_hyper_def)
  have n: "steps_per_epoch demo_hyper * epochs demo_hyper = 5" "replay_size demo_hyper = 2"
    by (simp_all add: demo_hyper_def)
  have c: "update_after demo_hyper \<le> 2 \<and> 2 mod update_every demo_hyper = 0"
    by (simp add: demo_hyper_def)
  note th = update_schedule[OF sl h,
      of Map.empty 0 demo_state 2 2 2]
  from th obtain s where s: "ddpg demo_world demo_hyper ''train'' ''runs/out'' Map.empty 0 = Inr s"
    "env_steps s = steps_per_epoch demo_hyper * epochs demo_hyper"
    "size' (replay_buffer s) =
       min (steps_per_epoch demo_hyper * epochs demo_hyper) (replay_size demo_hyper)"
    "ptr (replay_buffer s) =
       (steps_per_epoch demo_hyper * epochs demo_hyper) mod replay_size demo_hyper"
    "update_log s =
       concat (map (\<lambda>t. if update_after demo_hyper \<le> t \<and> t mod update_every demo_hyper = 0
                         then replicate (update_every demo_hyper) t else [])
                 [0..<steps_per_epoch demo_hyper * epochs demo_hyper])"
    by blast
  have r: "env_steps s = 5" "update_log s = [2, 2, 4, 4]"
    "size' (replay_buffer s) = 2" "ptr (replay_buffer s) = 1"
    using s(2,3,4,5) schedule_demo by (simp_all add: n)
  note st = mp[OF conjunct2[OF th] conjI[OF inv spe]]
  from st obtain s1 s2 s3 :: "nat train_state" where
    l: "loop_body demo_world demo_hyper ''runs/out'' 2 2 2 demo_state = Inr s3" and
    e1: "env_steps s1 = env_steps demo_state + 1" and
    n1: "networks s1 = networks demo_state" and
    n2: "(networks s2, world s2) =
            (update_round demo_world demo_hyper (replay_buffer s1) ^^
               (if update_after demo_hyper \<le> 2 \<and> 2 mod update_every demo_hyper = 0
                then update_every demo_hyper else 0)) (networks s1, world s1)" and
    u2: "update_log s2 =
            update_log demo_state @ (if update_after demo_hyper \<le> 2 \<and> 2 mod update_every demo_hyper = 0
                             then replicate (update_every demo_hyper) 2 else [])" and
    e2: "env_steps s2 = env_steps s1" and
    f3: "networks s3 = networks s2" "update_log s3 = update_log s2" "env_steps s3 = env_steps s2"
    by blast
  have "(networks s2, world s2) =
      (update_round demo_world demo_hyper (replay_buffer s1) ^^ update_every demo_hyper)
        (demo_nets, world s1)"
    using n2 c n1 by (simp add: demo_state_def)
  then have "networks s2 =
      \<lparr>ac = [4, 4], ac_targ = [7 / 2, 9 / 2], pi_optimizer = [], q_optimizer = []\<rparr>"
    by (simp add: update_round_demo)
  moreover have "update_log s2 = [2, 2]"
    using u2 c by (simp add: demo_state_def demo_hyper_def numeral_2_eq_2)
  moreover have "env_steps s3 = 3"
    using e1 e2 f3(3) by (simp add: demo_state_def)
  ultimately have "\<exists>s3. loop_body demo_world demo_hyper ''runs/out'' 2 2 2 demo_state = Inr s3 \<and>
      networks s3 = \<lparr>ac = [4, 4], ac_targ = [7 / 2, 9 / 2], pi_optimizer = [], q_optimizer = []\<rparr> \<and>
      update_log s3 = [2, 2] \<and> env_steps s3 = 3"
    using l f3 by simp
  then show ?thesis using sl h inv spe s(1) r by blast
qed

subsection \<open>The best checkpoint\<close>

lemma best_of_snoc: "best_of (avgs @ [a]) = max_best (best_of avgs) a"
  by (simp add: best_of_def)

lemma best_of_Nil: "best_of [] = None"
  by (simp add: best_of_def)

lemma best_of_cases:
  "(avgs = [] \<and> best_of avgs = None) \<or>
   (avgs \<noteq> [] \<and> (\<exists>b. best_of avgs = Some b \<and> b \<in> set avgs \<and> (\<forall>x\<in>set avgs. x \<le> b)))"
proof (induction avgs rule: rev_induct)
  case Nil
  show ?case by (simp add: best_of_Nil)
next
  case (snoc a avgs)
  show ?case
  proof (cases "avgs = []")
    case True
    then show ?thesis by (simp add: best_of_def max_best_def)
  next
    case False
    then obtain b where b: "best_of avgs = Some b" "b \<in> set avgs" "\<forall>x\<in>set avgs. x \<le> b"
      using snoc by blast
    have "best_of (avgs @ [a]) = Some (max b a)"
      by (simp add: best_of_snoc b(1) max_best_def)
    moreover have "max b a \<in> set (avgs @ [a])" using b(2) by (auto simp: max_def)
    moreover have "\<forall>x\<in>set (avgs @ [a]). x \<le> max b a" using b(3) by auto
    ultimately show ?thesis by simp
  qed
qed

lemma best_of_Max: "best_of avgs = (if avgs = [] then None else Some (Max (set avgs)))"
proof (cases "avgs = []")
  case True
  then show ?thesis by (simp add: best_of_Nil)
next
  case False
  then obtain b where b: "best_of avgs = Some b" "b \<in> set avgs" "\<forall>x\<in>set avgs. x \<le> b"
    using best_of_cases[of avgs] by blast
  have "Max (set avgs) = b"
    using b(2,3) by (intro Max_eqI) auto
  then show ?thesis using False b(1) by simp
qed

lemma exceeds_best_iff:
  "exceeds_best a (best_of avgs) \<longleftrightarrow> (\<forall>j<length avgs. avgs ! j < a)"
proof (cases "avgs = []")
  case True
  then show ?thesis by (simp add: best_of_Nil exceeds_best_def)
next
  case False
  then obtain b where b: "best_of avgs = Some b" "b \<in> set avgs" "\<forall>x\<in>set avgs. x \<le> b"
    using best_of_cases[of avgs] by blast
  have "b < a \<longleftrightarrow> (\<forall>x\<in>set avgs. x < a)"
    using b(2,3) by force
  then show ?thesis by (simp add: b(1) exceeds_best_def all_set_conv_all_nth)
qed

lemma best_list_Nil: "best_list [] = []"
  by (simp add: best_list_def)

lemma best_list_snoc:
  "best_list (avgs @ [a]) = best_list avgs @ best_step (best_of avgs) (Suc (length avgs)) a"
proof -
  have old: "(if \<forall>j<e - 1. (avgs @ [a]) ! j < (avgs @ [a]) ! (e - 1) then [(e, (avgs @ [a]) ! (e - 1))] else []) =
        (if \<forall>j<e - 1. avgs ! j < avgs ! (e - 1) then [(e, avgs ! (e - 1))] else [])"
    if "e \<in> set [1..<Suc (length avgs)]" for e
  proof -
    have e: "e - 1 < length avgs" using that by auto
    then have "\<And>j. j < e - 1 \<Longrightarrow> (avgs @ [a]) ! j = avgs ! j"
      by (simp add: nth_append)
    then show ?thesis using e by (simp add: nth_append)
  qed
  have new: "(\<forall>j<length avgs. (avgs @ [a]) ! j < a) \<longleftrightarrow> (\<forall>j<length avgs. avgs ! j < a)"
    by (simp add: nth_append)
  have "best_list (avgs @ [a]) =
      concat (map (\<lambda>e. if \<forall>j<e - 1. (avgs @ [a]) ! j < (avgs @ [a]) ! (e - 1)
                        then [(e, (avgs @ [a]) ! (e - 1))] else []) [1..<Suc (length avgs)])
      @ (if \<forall>j<length avgs. (avgs @ [a]) ! j < a then [(Suc (length avgs), a)] else [])"
    by (simp add: best_list_def)
  also have "concat (map (\<lambda>e. if \<forall>j<e - 1. (avgs @ [a]) ! j < (avgs @ [a]) ! (e - 1)
                        then [(e, (avgs @ [a]) ! (e - 1))] else []) [1..<Suc (length avgs)])
      = best_list avgs"
    unfolding best_list_def using old by (intro arg_cong[where f = concat] map_cong) auto
  finally show ?thesis
    by (simp add: new best_step_def exceeds_best_iff)
qed

lemma main_loop_best:
  assumes spe: "0 < steps_per_epoch hp"
    and init: "avg_log s0 = []" "saved s0 = []" "prev_best s0 = None"
  shows "main_loop X hp output_dir act_dim act_limit [0..<n] s0 = Inr s \<Longrightarrow>
     length (avg_log s) = n div steps_per_epoch hp \<and> saved s = best_list (avg_log s) \<and>
     prev_best s = best_of (avg_log s)"
proof (induction n arbitrary: s)
  case 0
  then have "s = s0" by simp
  then show ?case by (simp add: init best_list_Nil best_of_Nil)
next
  case (Suc n)
  from Suc.prems obtain s1 where
    1: "main_loop X hp output_dir act_dim act_limit [0..<n] s0 = Inr s1" and
    2: "loop_body X hp output_dir act_dim act_limit n s1 = Inr s"
    by (auto simp: main_loop_append ebind_eq_Inr)
  note ih = Suc.IH[OF 1]
  show ?case
  proof (cases "(n + 1) mod steps_per_epoch hp = 0")
    case True
    then obtain avg where a: "avg_log s = avg_log s1 @ [avg]"
      "saved s = saved s1 @ best_step (prev_best s1) ((n + 1) div steps_per_epoch hp) avg"
      "prev_best s = max_best (prev_best s1) avg"
      using loop_body_fields[OF 2] by auto
    have d: "Suc n div steps_per_epoch hp = Suc (n div steps_per_epoch hp)"
      using True by (simp add: div_Suc)
    show ?thesis
      using ih by (simp add: a d best_list_snoc best_of_snoc)
  next
    case False
    then have "avg_log s = avg_log s1" "saved s = saved s1" "prev_best s = prev_best s1"
      using loop_body_fields[OF 2] by auto
    moreover have "Suc n div steps_per_epoch hp = n div steps_per_epoch hp"
      using False by (simp add: div_Suc)
    ultimately show ?thesis using ih by simp
  qed
qed

lemma epoch_handling_files:
  assumes "epoch_handling X hp output_dir act_dim act_limit t s = Inr s'"
  shows "\<exists>new. saved s' = saved s @ new \<and>
     dom (files s') = dom (files s) \<union> (\<lambda>(e, key). savepath_of X output_dir e key) ` set new \<and>
     (\<forall>p. p \<notin> (\<lambda>(e, key). savepath_of X output_dir e key) ` set new \<longrightarrow>
        files s' p = files s p)"
proof (cases "(t + 1) mod steps_per_epoch hp = 0")
  case True
  have spe: "0 < steps_per_epoch hp" and sf: "0 < save_freq hp"
    using assms True by (auto simp: epoch_handling_def split: if_splits)
  let ?avg = "epoch_avg X hp act_dim act_limit t s"
  let ?e = "(t + 1) div steps_per_epoch hp"
  from epoch_handling_step[OF spe sf True, of X output_dir act_dim act_limit s] assms
  have f: "files s' = (if exceeds_best ?avg (prev_best s)
        then (files s)(savepath_of X output_dir ?e ?avg \<mapsto>
               \<lparr>ckpt_epoch = ?e, model_state_dict = ac (networks s),
                pi_optimizer_state_dict = pi_optimizer (networks s),
                q_optimizer_state_dict = q_optimizer (networks s)\<rparr>)
        else files s)"
    and sv: "saved s' = saved s @ (if exceeds_best ?avg (prev_best s) then [(?e, ?avg)] else [])"
    by auto
  show ?thesis
  proof (cases "exceeds_best ?avg (prev_best s)")
    case True
    have "saved s' = saved s @ [(?e, ?avg)]" using sv True by simp
    moreover have "dom (files s') = dom (files s) \<union>
        (\<lambda>(e, key). savepath_of X output_dir e key) ` set [(?e, ?avg)]"
      using f True by auto
    moreover have "\<forall>p. p \<notin> (\<lambda>(e, key). savepath_of X output_dir e key) ` set [(?e, ?avg)] \<longrightarrow>
        files s' p = files s p"
      using f True by auto
    ultimately show ?thesis by blast
  next
    case False
    have "saved s' = saved s @ []" using sv False by simp
    moreover have "dom (files s') = dom (files s) \<union>
        (\<lambda>(e, key). savepath_of X output_dir e key) ` set []"
      using f False by auto
    moreover have "\<forall>p. p \<notin> (\<lambda>(e, key). savepath_of X output_dir e key) ` set [] \<longrightarrow>
        files s' p = files s p"
      using f False by auto
    ultimately show ?thesis by blast
  qed
next
  case False
  then have "s' = s"
    using assms by (auto simp: epoch_handling_def split: if_splits)
  then have "saved s' = saved s @ []" "dom (files s') = dom (files s) \<union>
        (\<lambda>(e, key). savepath_of X output_dir e key) ` set []"
     "\<forall>p. p \<notin> (\<lambda>(e, key). savepath_of X output_dir e key) ` set [] \<longrightarrow>
        files s' p = files s p"
    by simp_all
  then show ?thesis by blast
qed

lemma loop_body_files:
  assumes "loop_body X hp output_dir act_dim act_limit t s = Inr s'"
  shows "\<exists>new. saved s' = saved s @ new \<and>
     dom (files s') = dom (files s) \<union> (\<lambda>(e, key). savepath_of X output_dir e key) ` set new \<and>
     (\<forall>p. p \<notin> (\<lambda>(e, key). savepath_of X output_dir e key) ` set new \<longrightarrow>
        files s' p = files s p)"
proof -
  from assms obtain s1 s2 where
    1: "interact X hp act_dim act_limit t s = Inr s1" and
    2: "update_handling X hp t s1 = Inr s2" and
    3: "epoch_handling X hp output_dir act_dim act_limit t s2 = Inr s'"
    by (auto simp: loop_body_def ebind_eq_Inr)
  have "saved s2 = saved s" "files s2 = files s"
    using interact_fields[OF 1] update_handling_fields[OF 2] by simp_all
  then show ?thesis using epoch_handling_files[OF 3] by simp
qed

lemma main_loop_files:
  "main_loop X hp output_dir act_dim act_limit ts s = Inr s' \<Longrightarrow>
     \<exists>new. saved s' = saved s @ new \<and>
     dom (files s') = dom (files s) \<union> (\<lambda>(e, key). savepath_of X output_dir e key) ` set new \<and>
     (\<forall>p. p \<notin> (\<lambda>(e, key). savepath_of X output_dir e key) ` set new \<longrightarrow>
        files s' p = files s p)"
proof (induction ts arbitrary: s)
  case Nil
  then have "s' = s" by simp
  then have "saved s' = saved s @ []" "dom (files s') = dom (files s) \<union>
        (\<lambda>(e, key). savepath_of X output_dir e key) ` set []"
     "\<forall>p. p \<notin> (\<lambda>(e, key). savepath_of X output_dir e key) ` set [] \<longrightarrow>
        files s' p = files s p"
    by simp_all
  then show ?case by blast
next
  case (Cons t ts)
  from Cons.prems obtain s1 where
    1: "loop_body X hp output_dir act_dim act_limit t s = Inr s1" and
    2: "main_loop X hp output_dir act_dim act_limit ts s1 = Inr s'"
    by (auto simp: ebind_eq_Inr)
  let ?P = "\<lambda>(e, key). savepath_of X output_dir e key"
  obtain n1 where a: "saved s1 = saved s @ n1"
    "dom (files s1) = dom (files s) \<union> ?P ` set n1"
    "\<forall>p. p \<notin> ?P ` set n1 \<longrightarrow> files s1 p = files s p"
    using loop_body_files[OF 1] by blast
  obtain n2 where b: "saved s' = saved s1 @ n2"
    "dom (files s') = dom (files s1) \<union> ?P ` set n2"
    "\<forall>p. p \<notin> ?P ` set n2 \<longrightarrow> files s' p = files s1 p"
    using Cons.IH[OF 2] by blast
  have "saved s' = saved s @ (n1 @ n2)" using a(1) b(1) by simp
  moreover have "dom (files s') = dom (files s) \<union> ?P ` set (n1 @ n2)"
    using a(2) b(2) by auto
  moreover have "\<forall>p. p \<notin> ?P ` set (n1 @ n2) \<longrightarrow> files s' p = files s p"
  proof (intro allI impI)
    fix p
    assume "p \<notin> ?P ` set (n1 @ n2)"
    then have "p \<notin> ?P ` set n1" "p \<notin> ?P ` set n2" by auto
    then show "files s' p = files s p" using a(3) b(3) by simp
  qed
  ultimately show ?case by blast
qed

lemma demo_run_avg:
  "case ddpg demo_world demo_hyper ''train'' ''runs/out'' Map.empty 0 of
     Inr s \<Rightarrow> avg_log s = [5, 3, 7, 7, 9] | Inl e \<Rightarrow> False"
  by code_simp

text \<open>Claim C5. At the end of an epoch \<open>avg_episode_ret\<close> is the logger's mean of
  the values stored under \<open>episode_return\<close>, the returns of the training episodes
  (line 344), read after \<open>test_agent\<close>. When it strictly exceeds \<open>prev_best\<close>
  (always, while \<open>prev_best\<close> is \<open>-inf\<close>), \<open>save_model\<close> writes a checkpoint of
  the live networks, named by the epoch and the average, into the checkpoints
  directory; otherwise no file is written; \<open>prev_best\<close> becomes the maximum of the
  two. So in a training run that returns, checkpoints are written for exactly the
  epochs whose average is strictly greater than the average of every epoch before
  them, a tie saves nothing, \<open>prev_best\<close> ends as the maximum of all averages, the
  files at the end are the initial ones and the checkpoints saved, and there is one
  average per epoch. In the small run the averages are 5, 3, 7, 7, 9 and the epochs
  saved are 1, 3 and 5.\<close>

theorem best_checkpoint_saves:
  assumes "ddpg X hp ''train'' output_dir fs w = Inr s"
  shows "saved s =
       [(e, avg_log s ! (e - 1)). e \<leftarrow> [1..<Suc (length (avg_log s))],
          \<forall>j<e - 1. avg_log s ! j < avg_log s ! (e - 1)] \<and>
     (0 < steps_per_epoch hp \<longrightarrow> length (avg_log s) = epochs hp) \<and>
     prev_best s = (if avg_log s = [] then None else Some (Max (set (avg_log s)))) \<and>
     dom (files s) = dom fs \<union> (\<lambda>(e, key). savepath_of X output_dir e key) ` set (saved s) \<and>
     (\<forall>p. p \<notin> (\<lambda>(e, key). savepath_of X output_dir e key) ` set (saved s) \<longrightarrow>
        files s p = fs p) \<and>
     (0 < steps_per_epoch hp \<and> 0 < save_freq hp \<and> (t + 1) mod steps_per_epoch hp = 0 \<longrightarrow>
        (\<exists>s1. epoch_handling X hp output_dir act_dim act_limit t s0 = Inr s1 \<and>
           avg_log s1 = avg_log s0 @ [epoch_avg X hp act_dim act_limit t s0] \<and>
           prev_best s1 = max_best (prev_best s0) (epoch_avg X hp act_dim act_limit t s0) \<and>
           files s1 =
             (if exceeds_best (epoch_avg X hp act_dim act_limit t s0) (prev_best s0)
              then (files s0)(savepath_of X output_dir ((t + 1) div steps_per_epoch hp)
                               (epoch_avg X hp act_dim act_limit t s0) \<mapsto>
                     \<lparr>ckpt_epoch = (t + 1) div steps_per_epoch hp,
                      model_state_dict = ac (networks s0),
                      pi_optimizer_state_dict = pi_optimizer (networks s0),
                      q_optimizer_state_dict = q_optimizer (networks s0)\<rparr>)
              else files s0) \<and>
           saved s1 =
             saved s0 @ (if exceeds_best (epoch_avg X hp act_dim act_limit t s0) (prev_best s0)
                         then [((t + 1) div steps_per_epoch hp,
                                epoch_avg X hp act_dim act_limit t s0)]
                         else []) \<and>
           exceeds_best (epoch_avg X hp act_dim act_limit t s0) (prev_best s0) =
             (case prev_best s0 of None \<Rightarrow> True
              | Some b \<Rightarrow> b < epoch_avg X hp act_dim act_limit t s0)))"
proof -
  have hi: "action_high X \<noteq> []"
    using assms ddpg_no_action_bound[of X hp "''train''" output_dir fs w] by auto
  have sl: "CHR ''/'' \<in> set output_dir"
    using assms ddpg_no_slash[of output_dir X hp "''train''" fs w] by auto
  note run = assms[unfolded ddpg_train[OF sl hi]]
  have a: "saved s =
       [(e, avg_log s ! (e - 1)). e \<leftarrow> [1..<Suc (length (avg_log s))],
          \<forall>j<e - 1. avg_log s ! j < avg_log s ! (e - 1)] \<and>
     (0 < steps_per_epoch hp \<longrightarrow> length (avg_log s) = epochs hp) \<and>
     prev_best s = (if avg_log s = [] then None else Some (Max (set (avg_log s))))"
  proof (cases "steps_per_epoch hp = 0")
    case True
    then show ?thesis using run by (auto simp: best_list_def)
  next
    case False
    then have spe: "0 < steps_per_epoch hp" by simp
    have "length (avg_log s) = (steps_per_epoch hp * epochs hp) div steps_per_epoch hp \<and>
        saved s = best_list (avg_log s) \<and> prev_best s = best_of (avg_log s)"
      by (rule main_loop_best[OF spe _ _ _ run]) simp_all
    then show ?thesis using spe by (simp add: best_list_def best_of_Max)
  qed
  have f: "dom (files s) = dom fs \<union> (\<lambda>(e, key). savepath_of X output_dir e key) ` set (saved s) \<and>
     (\<forall>p. p \<notin> (\<lambda>(e, key). savepath_of X output_dir e key) ` set (saved s) \<longrightarrow>
        files s p = fs p)"
    using main_loop_files[OF run] by auto
  have e: "exceeds_best (epoch_avg X hp act_dim act_limit t s0) (prev_best s0) =
             (case prev_best s0 of None \<Rightarrow> True
              | Some b \<Rightarrow> b < epoch_avg X hp act_dim act_limit t s0)"
    by (simp add: exceeds_best_def)
  have step: "0 < steps_per_epoch hp \<and> 0 < save_freq hp \<and> (t + 1) mod steps_per_epoch hp = 0 \<longrightarrow>
        (\<exists>s1. epoch_handling X hp output_dir act_dim act_limit t s0 = Inr s1 \<and>
           avg_log s1 = avg_log s0 @ [epoch_avg X hp act_dim act_limit t s0] \<and>
           prev_best s1 = max_best (prev_best s0) (epoch_avg X hp act_dim act_limit t s0) \<and>
           files s1 =
             (if exceeds_best (epoch_avg X hp act_dim act_limit t s0) (prev_best s0)
              then (files s0)(savepath_of X output_dir ((t + 1) div steps_per_epoch hp)
                               (epoch_avg X hp act_dim act_limit t s0) \<mapsto>
                     \<lparr>ckpt_epoch = (t + 1) div steps_per_epoch hp,
                      model_state_dict = ac (networks s0),
                      pi_optimizer_state_dict = pi_optimizer (networks s0),
                      q_optimizer_state_dict = q_optimizer (networks s0)\<rparr>)
              else files s0) \<and>
           saved s1 =
             saved s0 @ (if exceeds_best (epoch_avg X hp act_dim act_limit t s0) (prev_best s0)
                         then [((t + 1) div steps_per_epoch hp,
                                epoch_avg X hp act_dim act_limit t s0)]
                         else []) \<and>
           exceeds_best (epoch_avg X hp act_dim act_limit t s0) (prev_best s0) =
             (case prev_best s0 of None \<Rightarrow> True
              | Some b \<Rightarrow> b < epoch_avg X hp act_dim act_limit t s0))"
  proof (intro impI, elim conjE)
    assume h: "0 < steps_per_epoch hp" "0 < save_freq hp" "(t + 1) mod steps_per_epoch hp = 0"
    from epoch_handling_step[OF h, of X output_dir act_dim act_limit s0]
    obtain s1 where s1: "epoch_handling X hp output_dir act_dim act_limit t s0 = Inr s1 \<and>
           avg_log s1 = avg_log s0 @ [epoch_avg X hp act_dim act_limit t s0] \<and>
           prev_best s1 = max_best (prev_best s0) (epoch_avg X hp act_dim act_limit t s0) \<and>
           files s1 =
             (if exceeds_best (epoch_avg X hp act_dim act_limit t s0) (prev_best s0)
              then (files s0)(savepath_of X output_dir ((t + 1) div steps_per_epoch hp)
                               (epoch_avg X hp act_dim act_limit t s0) \<mapsto>
                     \<lparr>ckpt_epoch = (t + 1) div steps_per_epoch hp,
                      model_state_dict = ac (networks s0),
                      pi_optimizer_state_dict = pi_optimizer (networks s0),
                      q_optimizer_state_dict = q_optimizer (networks s0)\<rparr>)
              else files s0) \<and>
           saved s1 =
             saved s0 @ (if exceeds_best (epoch_avg X hp act_dim act_limit t s0) (prev_best s0)
                         then [((t + 1) div steps_per_epoch hp,
                                epoch_avg X hp act_dim act_limit t s0)]
                         else [])" ..
    show "\<exists>s1. epoch_handling X hp output_dir act_dim act_limit t s0 = Inr s1 \<and>
           avg_log s1 = avg_log s0 @ [epoch_avg X hp act_dim act_limit t s0] \<and>
           prev_best s1 = max_best (prev_best s0) (epoch_avg X hp act_dim act_limit t s0) \<and>
           files s1 =
             (if exceeds_best (epoch_avg X hp act_dim act_limit t s0) (prev_best s0)
              then (files s0)(savepath_of X output_dir ((t + 1) div steps_per_epoch hp)
                               (epoch_avg X hp act_dim act_limit t s0) \<mapsto>
                     \<lparr>ckpt_epoch = (t + 1) div steps_per_epoch hp,
                      model_state_dict = ac (networks s0),
                      pi_optimizer_state_dict = pi_optimizer (networks s0),
                      q_optimizer_state_dict = q_optimizer (networks s0)\<rparr>)
              else files s0) \<and>
           saved s1 =
             saved s0 @ (if exceeds_best (epoch_avg X hp act_dim act_limit t s0) (prev_best s0)
                         then [((t + 1) div steps_per_epoch hp,
                                epoch_avg X hp act_dim act_limit t s0)]
                         else []) \<and>
           exceeds_best (epoch_avg X hp act_dim act_limit t s0) (prev_best s0) =
             (case prev_best s0 of None \<Rightarrow> True
              | Some b \<Rightarrow> b < epoch_avg X hp act_dim act_limit t s0)"
      by (rule exI[of _ s1]) (intro conjI s1[THEN conjunct1] s1[THEN conjunct2, THEN conjunct1]
          s1[THEN conjunct2, THEN conjunct2, THEN conjunct1]
          s1[THEN conjunct2, THEN conjunct2, THEN conjunct2, THEN conjunct1]
          s1[THEN conjunct2, THEN conjunct2, THEN conjunct2, THEN conjunct2] e)
  qed
  show ?thesis
    by (intro conjI a[THEN conjunct1] a[THEN conjunct2, THEN conjunct1]
        a[THEN conjunct2, THEN conjunct2] f[THEN conjunct1] f[THEN conjunct2] step)
qed

theorem best_checkpoint_saves_witness:
  "(\<exists>s. ddpg demo_world demo_hyper ''train'' ''runs/out'' Map.empty 0 = Inr s \<and>
      avg_log s = [5, 3, 7, 7, 9] \<and> saved s = [(1, 5), (3, 7), (5, 9)] \<and>
      prev_best s = Some 9 \<and>
      dom (files s) = {''runs/out/checkpoints/ckpt_I.pth'', ''runs/out/checkpoints/ckpt_III.pth'',
                       ''runs/out/checkpoints/ckpt_IIIII.pth''}) \<and>
   0 < steps_per_epoch demo_hyper \<and> 0 < save_freq demo_hyper \<and>
   (2 + 1) mod steps_per_epoch demo_hyper = 0 \<and>
   (\<exists>s1. epoch_handling demo_world demo_hyper ''runs/out'' 2 2 2
            (demo_state\<lparr>prev_best := Some 3\<rparr>) = Inr s1 \<and>
      avg_log s1 = [3] \<and> prev_best s1 = Some 3 \<and> files s1 = Map.empty \<and> saved s1 = [])"
proof -
  have sl: "CHR ''/'' \<in> set ''runs/out''" by simp
  have h: "action_high demo_world \<noteq> []" "0 < replay_size demo_hyper"
    "0 < update_every demo_hyper" "0 < save_freq demo_hyper"
    by (simp_all add: demo_world_def demo_hyper_def)
  have c: "0 < steps_per_epoch demo_hyper \<and> 0 < save_freq demo_hyper \<and>
      (2 + 1) mod steps_per_epoch demo_hyper = 0"
    by (simp add: demo_hyper_def)
  obtain s where run: "ddpg demo_world demo_hyper ''train'' ''runs/out'' Map.empty 0 = Inr s"
    using ddpg_train_returns[OF sl h] by blast
  note th = best_checkpoint_saves[OF run, of 2 2 2 "demo_state\<lparr>prev_best := Some 3\<rparr>"]
  have avg: "avg_log s = [5, 3, 7, 7, 9]"
    using demo_run_avg by (simp add: run)
  have sv: "saved s = [(1, 5), (3, 7), (5, 9)]"
    using th[THEN conjunct1]
    by (simp add: avg less_Suc_eq numeral_eq_Suc upt_rec)
  have pb: "prev_best s = Some 9"
    using th[THEN conjunct2, THEN conjunct2, THEN conjunct1] by (simp add: avg)
  have p: "savepath_of demo_world ''runs/out'' (Suc 0) 5 = ''runs/out/checkpoints/ckpt_I.pth''"
    "savepath_of demo_world ''runs/out'' 3 7 = ''runs/out/checkpoints/ckpt_III.pth''"
    "savepath_of demo_world ''runs/out'' 5 9 = ''runs/out/checkpoints/ckpt_IIIII.pth''"
    by code_simp+
  have dm: "dom (files s) = {''runs/out/checkpoints/ckpt_I.pth'',
      ''runs/out/checkpoints/ckpt_III.pth'', ''runs/out/checkpoints/ckpt_IIIII.pth''}"
    using th[THEN conjunct2, THEN conjunct2, THEN conjunct2, THEN conjunct1]
    by (simp add: sv p)
  have ea: "epoch_avg demo_world demo_hyper 2 2 2 (demo_state\<lparr>prev_best := Some 3\<rparr>) = 3"
    by code_simp
  from mp[OF th[THEN conjunct2, THEN conjunct2, THEN conjunct2, THEN conjunct2, THEN conjunct2] c]
  obtain s1 :: "nat train_state" where
    s1: "epoch_handling demo_world demo_hyper ''runs/out'' 2 2 2
            (demo_state\<lparr>prev_best := Some 3\<rparr>) = Inr s1"
      "avg_log s1 = avg_log (demo_state\<lparr>prev_best := Some 3\<rparr>) @
          [epoch_avg demo_world demo_hyper 2 2 2 (demo_state\<lparr>prev_best := Some 3\<rparr>)]"
      "prev_best s1 = max_best (prev_best (demo_state\<lparr>prev_best := Some 3\<rparr>))
          (epoch_avg demo_world demo_hyper 2 2 2 (demo_state\<lparr>prev_best := Some 3\<rparr>))"
      "files s1 =
             (if exceeds_best (epoch_avg demo_world demo_hyper 2 2 2 (demo_state\<lparr>prev_best := Some 3\<rparr>))
                   (prev_best (demo_state\<lparr>prev_best := Some 3\<rparr>))
              then (files (demo_state\<lparr>prev_best := Some 3\<rparr>))(savepath_of demo_world ''runs/out'' ((2 + 1) div steps_per_epoch demo_hyper)
                               (epoch_avg demo_world demo_hyper 2 2 2 (demo_state\<lparr>prev_best := Some 3\<rparr>)) \<mapsto>
                     \<lparr>ckpt_epoch = (2 + 1) div steps_per_epoch demo_hyper,
                      model_state_dict = ac (networks (demo_state\<lparr>prev_best := Some 3\<rparr>)),
                      pi_optimizer_state_dict = pi_optimizer (networks (demo_state\<lparr>prev_best := Some 3\<rparr>)),
                      q_optimizer_state_dict = q_optimizer (networks (demo_state\<lparr>prev_best := Some 3\<rparr>))\<rparr>)
              else files (demo_state\<lparr>prev_best := Some 3\<rparr>))"
      "saved s1 =
             saved (demo_state\<lparr>prev_best := Some 3\<rparr>) @
               (if exceeds_best (epoch_avg demo_world demo_hyper 2 2 2 (demo_state\<lparr>prev_best := Some 3\<rparr>))
                     (prev_best (demo_state\<lparr>prev_best := Some 3\<rparr>))
                then [((2 + 1) div steps_per_epoch demo_hyper,
                       epoch_avg demo_world demo_hyper 2 2 2 (demo_state\<lparr>prev_best := Some 3\<rparr>))]
                else [])"
      "exceeds_best (epoch_avg demo_world demo_hyper 2 2 2 (demo_state\<lparr>prev_best := Some 3\<rparr>))
           (prev_best (demo_state\<lparr>prev_best := Some 3\<rparr>)) =
         (case prev_best (demo_state\<lparr>prev_best := Some 3\<rparr>) of None \<Rightarrow> True
          | Some b \<Rightarrow> b < epoch_avg demo_world demo_hyper 2 2 2 (demo_state\<lparr>prev_best := Some 3\<rparr>))"
    by blast
  have ne: "\<not> exceeds_best (epoch_avg demo_world demo_hyper 2 2 2 (demo_state\<lparr>prev_best := Some 3\<rparr>))
           (prev_best (demo_state\<lparr>prev_best := Some 3\<rparr>))"
    by (simp add: ea exceeds_best_def)
  have fld: "avg_log demo_state = []" "files demo_state = Map.empty" "saved demo_state = []"
    by (simp_all add: demo_state_def)
  have r: "avg_log s1 = [3]" "prev_best s1 = Some 3" "files s1 = Map.empty" "saved s1 = []"
    using s1(2,3,4,5) ne by (simp_all add: ea max_best_def fld)
  have A: "\<exists>s. ddpg demo_world demo_hyper ''train'' ''runs/out'' Map.empty 0 = Inr s \<and>
      avg_log s = [5, 3, 7, 7, 9] \<and> saved s = [(1, 5), (3, 7), (5, 9)] \<and>
      prev_best s = Some 9 \<and>
      dom (files s) = {''runs/out/checkpoints/ckpt_I.pth'', ''runs/out/checkpoints/ckpt_III.pth'',
                       ''runs/out/checkpoints/ckpt_IIIII.pth''}"
    using run avg sv pb dm by blast
  have B: "\<exists>s1. epoch_handling demo_world demo_hyper ''runs/out'' 2 2 2
            (demo_state\<lparr>prev_best := Some 3\<rparr>) = Inr s1 \<and>
      avg_log s1 = [3] \<and> prev_best s1 = Some 3 \<and> files s1 = Map.empty \<and> saved s1 = []"
    using s1(1) r by blast
  show ?thesis using A B c by blast
qed

subsection \<open>Loading a checkpoint\<close>

lemma ddpg_eval:
  assumes "CHR ''/'' \<in> set output_dir" and "action_high X \<noteq> []"
  shows "ddpg X hp ''eval'' output_dir fs w =
      ebind (load_checkpoint fs output_dir
               \<lparr>ac = fst (init_nets X), ac_targ = fst (init_nets X),
                pi_optimizer = fst (snd (init_nets X)), q_optimizer = snd (snd (init_nets X))\<rparr>)
        (\<lambda>nn1. Inr \<lparr>world = test_agent X hp (length (action_high X)) (hd (action_high X)) (ac nn1)
                                 (num_test_episodes hp) w,
                     o' = [], ep_ret = 0, ep_len = 0,
                     replay_buffer = ReplayBuffer_init (obs_dim X) (length (action_high X)) (replay_size hp),
                     networks = nn1, prev_best = None, files = fs, env_steps = 0,
                     update_log = [], avg_log = [], saved = []\<rparr>)"
proof -
  obtain h hs where h: "action_high X = h # hs"
    using assms(2) by (cases "action_high X") simp_all
  obtain name where n: "exp_name_of output_dir = Inr name"
    using exp_name_of_slash[OF assms(1)] by blast
  show ?thesis
    by (simp add: ddpg_def n act_limit_of_def h Let_def split_beta)
qed

text \<open>Claim C9. When the checkpoint file of eval mode exists, loading sets the live and
  the target parameters to the checkpoint's model state and the two optimizers to the
  checkpoint's optimizer states, so live and target are equal, and the eval run, with
  an output directory that has a \<open>/\<close> and a non-empty action space, ends with these
  networks. When the file does not exist, loading raises FileNotFoundError and so
  does the run. An output directory without \<open>/\<close> makes the run raise IndexError at
  line 140, before anything is loaded.\<close>

theorem eval_checkpoint_restore:
  "(fs (path_join (path_join output_dir ''checkpoints'') ''ckpt_1_-183.19.pth'') = Some ck \<longrightarrow>
      load_checkpoint fs output_dir nn =
        Inr \<lparr>ac = model_state_dict ck, ac_targ = model_state_dict ck,
             pi_optimizer = pi_optimizer_state_dict ck,
             q_optimizer = q_optimizer_state_dict ck\<rparr> \<and>
      (CHR ''/'' \<in> set output_dir \<and> action_high X \<noteq> [] \<longrightarrow>
         (\<exists>s. ddpg X hp ''eval'' output_dir fs w = Inr s \<and>
            networks s = \<lparr>ac = model_state_dict ck, ac_targ = model_state_dict ck,
                          pi_optimizer = pi_optimizer_state_dict ck,
                          q_optimizer = q_optimizer_state_dict ck\<rparr>))) \<and>
   (fs (path_join (path_join output_dir ''checkpoints'') ''ckpt_1_-183.19.pth'') = None \<longrightarrow>
      load_checkpoint fs output_dir nn = Inl FileNotFoundError \<and>
      (CHR ''/'' \<in> set output_dir \<and> action_high X \<noteq> [] \<longrightarrow>
         ddpg X hp ''eval'' output_dir fs w = Inl FileNotFoundError)) \<and>
   (CHR ''/'' \<notin> set output_dir \<longrightarrow> ddpg X hp ''eval'' output_dir fs w = Inl IndexError)"
proof -
  let ?p = "path_join (path_join output_dir ''checkpoints'') ''ckpt_1_-183.19.pth''"
  have l1: "load_checkpoint fs output_dir nn' =
        Inr \<lparr>ac = model_state_dict ck, ac_targ = model_state_dict ck,
             pi_optimizer = pi_optimizer_state_dict ck,
             q_optimizer = q_optimizer_state_dict ck\<rparr>" if "fs ?p = Some ck" for nn'
    using that by (simp add: load_checkpoint_def Let_def)
  have l2: "load_checkpoint fs output_dir nn' = Inl FileNotFoundError" if "fs ?p = None" for nn'
    using that by (simp add: load_checkpoint_def Let_def)
  have e1: "\<exists>s. ddpg X hp ''eval'' output_dir fs w = Inr s \<and>
            networks s = \<lparr>ac = model_state_dict ck, ac_targ = model_state_dict ck,
                          pi_optimizer = pi_optimizer_state_dict ck,
                          q_optimizer = q_optimizer_state_dict ck\<rparr>"
    if "fs ?p = Some ck" and "CHR ''/'' \<in> set output_dir" and "action_high X \<noteq> []"
    unfolding ddpg_eval[OF that(2,3)] l1[OF that(1)] by simp
  have e2: "ddpg X hp ''eval'' output_dir fs w = Inl FileNotFoundError"
    if "fs ?p = None" and "CHR ''/'' \<in> set output_dir" and "action_high X \<noteq> []"
    unfolding ddpg_eval[OF that(2,3)] l2[OF that(1)] by simp
  have e3: "ddpg X hp ''eval'' output_dir fs w = Inl IndexError"
    if "CHR ''/'' \<notin> set output_dir"
    using that by (rule ddpg_no_slash)
  show ?thesis
    using l1 l2 e1 e2 e3 by blast
qed

theorem eval_checkpoint_restore_witness:
  "[''runs/out/checkpoints/ckpt_1_-183.19.pth'' \<mapsto>
      \<lparr>ckpt_epoch = 1, model_state_dict = [3, 4], pi_optimizer_state_dict = [5],
       q_optimizer_state_dict = [6]\<rparr>]
     (path_join (path_join ''runs/out'' ''checkpoints'') ''ckpt_1_-183.19.pth'') =
     Some \<lparr>ckpt_epoch = 1, model_state_dict = [3, 4], pi_optimizer_state_dict = [5],
       q_optimizer_state_dict = [6]\<rparr> \<and>
   load_checkpoint [''runs/out/checkpoints/ckpt_1_-183.19.pth'' \<mapsto>
      \<lparr>ckpt_epoch = 1, model_state_dict = [3, 4], pi_optimizer_state_dict = [5],
       q_optimizer_state_dict = [6]\<rparr>] ''runs/out'' demo_nets =
     Inr \<lparr>ac = [3, 4], ac_targ = [3, 4], pi_optimizer = [5], q_optimizer = [6]\<rparr> \<and>
   CHR ''/'' \<in> set ''runs/out'' \<and> action_high demo_world \<noteq> [] \<and>
   (\<exists>s. ddpg demo_world demo_hyper ''eval'' ''runs/out''
           [''runs/out/checkpoints/ckpt_1_-183.19.pth'' \<mapsto>
              \<lparr>ckpt_epoch = 1, model_state_dict = [3, 4], pi_optimizer_state_dict = [5],
               q_optimizer_state_dict = [6]\<rparr>] 0 = Inr s \<and>
      networks s = \<lparr>ac = [3, 4], ac_targ = [3, 4], pi_optimizer = [5], q_optimizer = [6]\<rparr>) \<and>
   Map.empty (path_join (path_join ''runs/out'' ''checkpoints'') ''ckpt_1_-183.19.pth'') = None \<and>
   load_checkpoint Map.empty ''runs/out'' demo_nets = Inl FileNotFoundError \<and>
   ddpg demo_world demo_hyper ''eval'' ''runs/out'' Map.empty 0 = Inl FileNotFoundError \<and>
   CHR ''/'' \<notin> set ''out'' \<and>
   ddpg demo_world demo_hyper ''eval'' ''out'' Map.empty 0 = Inl IndexError"
proof -
  let ?ck = "\<lparr>ckpt_epoch = 1, model_state_dict = [3, 4], pi_optimizer_state_dict = [5],
       q_optimizer_state_dict = [6]\<rparr>"
  let ?fs = "[''runs/out/checkpoints/ckpt_1_-183.19.pth'' \<mapsto> ?ck]"
  have p: "path_join (path_join ''runs/out'' ''checkpoints'') ''ckpt_1_-183.19.pth'' =
      ''runs/out/checkpoints/ckpt_1_-183.19.pth''"
    by (simp add: path_join_def)
  have f: "?fs (path_join (path_join ''runs/out'' ''checkpoints'') ''ckpt_1_-183.19.pth'') = Some ?ck"
    unfolding p by simp
  have g: "Map.empty (path_join (path_join ''runs/out'' ''checkpoints'') ''ckpt_1_-183.19.pth'') = None"
    by simp
  have sl: "CHR ''/'' \<in> set ''runs/out''" by simp
  have ns: "CHR ''/'' \<notin> set ''out''" by simp
  have hi: "action_high demo_world \<noteq> []" by (simp add: demo_world_def)
  note t1 = eval_checkpoint_restore[of ?fs "''runs/out''" ?ck demo_nets demo_world demo_hyper 0]
  note t2 = eval_checkpoint_restore[of Map.empty "''runs/out''" ?ck demo_nets demo_world demo_hyper 0]
  note t3 = eval_checkpoint_restore[of Map.empty "''out''" ?ck demo_nets demo_world demo_hyper 0]
  have a: "load_checkpoint ?fs ''runs/out'' demo_nets =
     Inr \<lparr>ac = [3, 4], ac_targ = [3, 4], pi_optimizer = [5], q_optimizer = [6]\<rparr>"
    using t1 f by simp
  have b: "\<exists>s. ddpg demo_world demo_hyper ''eval'' ''runs/out'' ?fs 0 = Inr s \<and>
      networks s = \<lparr>ac = [3, 4], ac_targ = [3, 4], pi_optimizer = [5], q_optimizer = [6]\<rparr>"
    using t1 f sl hi by simp
  have c: "load_checkpoint Map.empty ''runs/out'' demo_nets = Inl FileNotFoundError"
    "ddpg demo_world demo_hyper ''eval'' ''runs/out'' Map.empty 0 = Inl FileNotFoundError"
    using t2 g sl hi by simp_all
  have d: "ddpg demo_world demo_hyper ''eval'' ''out'' Map.empty 0 = Inl IndexError"
    using t3 ns by simp
  show ?thesis
    using f a sl hi b g c ns d by blast
qed

end
